theory Spec2Isabelle
  imports Complex_Main "HOL-Library.Word"
begin

unbundle bit_operations_syntax

section \<open>Deterministic RNG (seedRNG, mulberry32)\<close>

text \<open>
  The generator keeps one 32-bit state in a closure. Every JavaScript operator it uses
  (\<^verbatim>\<open>| 0\<close>, \<^verbatim>\<open>Math.imul\<close>, \<^verbatim>\<open>^\<close>, \<^verbatim>\<open>>>>\<close>) works on the low 32 bits of its
  operands, so the state and the temporaries are values of type \<open>32 word\<close>: addition and
  multiplication wrap, \<open>drop_bit\<close> is the unsigned shift \<^verbatim>\<open>>>>\<close>. The closure becomes
  explicit state passing: each operation returns its result together with the new state.
  The final \<^verbatim>\<open>(...) >>> 0\<close> reads the word as an unsigned number (\<open>unat\<close>); dividing it
  by \<open>2^32\<close> is exact in double precision, so the quotient is a real number here.
\<close>

type_synonym u32 = "32 word"

definition seedRNG :: "u32 \<Rightarrow> u32" where
  "seedRNG seed = seed"

definition rng_mix :: "u32 \<Rightarrow> u32" where
  "rng_mix state =
     (let t = (state XOR drop_bit 15 state) * (1 OR state);
          t = (t + (t XOR drop_bit 7 t) * (61 OR t)) XOR t
      in t XOR drop_bit 14 t)"

definition rng_next :: "u32 \<Rightarrow> real \<times> u32" where
  "rng_next state0 =
     (let state = state0 + 0x6d2b79f5
      in (real (unat (rng_mix state)) / 4294967296, state))"

definition nextInt :: "nat \<Rightarrow> u32 \<Rightarrow> nat \<times> u32" where
  "nextInt mx state0 =
     (let (u, state) = rng_next state0 in (nat \<lfloor>u * real mx\<rfloor>, state))"

definition nextFloat :: "real \<Rightarrow> real \<Rightarrow> u32 \<Rightarrow> real \<times> u32" where
  "nextFloat mn mx state0 =
     (let (u, state) = rng_next state0 in (mn + u * (mx - mn), state))"

text \<open>The first \<open>n\<close> values an RNG in state \<open>state\<close> returns, call for call.\<close>

fun rng_take :: "nat \<Rightarrow> u32 \<Rightarrow> real list" where
  "rng_take 0 state = []"
| "rng_take (Suc n) state = fst (rng_next state) # rng_take n (snd (rng_next state))"

subsection \<open>The mixing as the specification words it\<close>

text \<open>
  The specification describes the same step on unbounded naturals with every reduction
  modulo \<open>2^32\<close> written out. This second definition follows those words; it is compared
  with the definition taken from the source.
\<close>

definition spec_mix :: "nat \<Rightarrow> nat" where
  "spec_mix s =
     (let t = ((s XOR drop_bit 15 s) * (s OR 1)) mod 2 ^ 32;
          t = ((t + ((t XOR drop_bit 7 t) * (t OR 61)) mod 2 ^ 32) mod 2 ^ 32) XOR t
      in (t XOR drop_bit 14 t) mod 2 ^ 32)"

definition spec_nextUnit :: "nat \<Rightarrow> real \<times> nat" where
  "spec_nextUnit s0 =
     (let s = (s0 + 0x6D2B79F5) mod 2 ^ 32
      in (real (spec_mix s) / 2 ^ 32, s))"

fun spec_take :: "nat \<Rightarrow> nat \<Rightarrow> real list" where
  "spec_take 0 s = []"
| "spec_take (Suc n) s = fst (spec_nextUnit s) # spec_take n (snd (spec_nextUnit s))"

section \<open>Data model (maze.ts, physics.ts)\<close>

text \<open>
  JavaScript numbers that hold positions, velocities, radii and time steps are modelled
  as real numbers: the arithmetic of the source is read as exact arithmetic. Grid
  coordinates, the grid size and the hole count are natural numbers. The interface
  \<^verbatim>\<open>Maze\<close> calls its first field \<^verbatim>\<open>size\<close>; it is \<open>maze_size\<close> here, and the fields of
  the other interfaces carry the interface's name as a prefix where the plain name would
  collide with a variable.
\<close>

record walls =
  north :: bool
  east :: bool
  south :: bool
  west :: bool

record cell =
  cell_x :: nat
  cell_y :: nat
  cell_walls :: walls

record hole =
  hole_x :: nat
  hole_y :: nat
  offsetX :: "real option"
  offsetY :: "real option"

record maze =
  maze_size :: nat
  cells :: "cell list list"
  holes :: "hole list"
  goal :: hole

record ball =
  ball_x :: real
  ball_y :: real
  ball_vx :: real
  ball_vy :: real

record config =
  GRID_SIZE :: nat
  GRAVITY :: real
  FRICTION :: real
  BALL_RADIUS_RATIO :: real
  HOLE_RADIUS_RATIO :: real
  GOAL_RADIUS_RATIO :: real

record inputState =
  tiltX :: real
  tiltY :: real

record outcome =
  reset :: bool
  won :: bool

record collision =
  collides :: bool
  nx :: "real option"
  ny :: "real option"

text \<open>
  Reading \<^verbatim>\<open>maze.cells[row][col].walls\<close> outside the arrays throws a TypeError in
  JavaScript (a property of \<^verbatim>\<open>undefined\<close>); the read is a function into a sum type.
\<close>

datatype error = TypeError

definition cellAt :: "maze \<Rightarrow> int \<Rightarrow> int \<Rightarrow> error + cell" where
  "cellAt m row col =
     (if 0 \<le> row \<and> nat row < length (cells m)
         \<and> 0 \<le> col \<and> nat col < length (cells m ! nat row)
      then Inr (cells m ! nat row ! nat col)
      else Inl TypeError)"

section \<open>Physics step (physics.ts)\<close>

text \<open>
  \<^verbatim>\<open>circleLineCollision\<close>, line by line, over the reals. This is where exact arithmetic
  and the double arithmetic of the program can differ in kind and not only by a rounding
  error. When the centre of the circle lies on the segment, the exact closest point is the
  centre itself, so that the distance is \<open>0\<close> and the normal \<open>(0, 0)\<close>; in doubles the
  product \<^verbatim>\<open>t * dy\<close> may be rounded, the closest point is then one unit in the last place
  away from the centre, and the normal is a unit vector along the wall. The definition
  says nothing about that case of the program. The runs evaluated in the theorems below
  have the centre of the ball off the line of every closed wall.
\<close>

definition circleLineCollision ::
  "real \<Rightarrow> real \<Rightarrow> real \<Rightarrow> real \<Rightarrow> real \<Rightarrow> real \<Rightarrow> real \<Rightarrow> collision" where
  "circleLineCollision cx cy radius x1 y1 x2 y2 =
     (let dx = x2 - x1;
          dy = y2 - y1;
          lengthSq = dx * dx + dy * dy
      in if lengthSq = 0
         then (let distSq = (cx - x1) * (cx - x1) + (cy - y1) * (cy - y1)
               in \<lparr>collides = distSq \<le> radius * radius, nx = None, ny = None\<rparr>)
         else
           (let t = ((cx - x1) * dx + (cy - y1) * dy) / lengthSq;
                t = max 0 (min 1 t);
                closestX = x1 + t * dx;
                closestY = y1 + t * dy;
                distX = cx - closestX;
                distY = cy - closestY;
                distSq = distX * distX + distY * distY
            in if distSq \<le> radius * radius
               then (let dist = sqrt distSq
                     in \<lparr>collides = True,
                         nx = Some (if dist > 0 then distX / dist else 0),
                         ny = Some (if dist > 0 then distY / dist else 0)\<rparr>)
               else \<lparr>collides = False, nx = None, ny = None\<rparr>))"

text \<open>Velocity update: acceleration from the tilt scaled by \<open>dt\<close>, then friction.\<close>

definition integrate :: "ball \<Rightarrow> inputState \<Rightarrow> config \<Rightarrow> real \<Rightarrow> ball" where
  "integrate b inp cfg dt =
     (let ax = tiltX inp * GRAVITY cfg;
          ay = tiltY inp * GRAVITY cfg;
          b = b\<lparr>ball_vx := ball_vx b + ax * dt\<rparr>;
          b = b\<lparr>ball_vy := ball_vy b + ay * dt\<rparr>;
          b = b\<lparr>ball_vx := ball_vx b * FRICTION cfg\<rparr>;
          b = b\<lparr>ball_vy := ball_vy b * FRICTION cfg\<rparr>
      in b)"

text \<open>
  The two sweep loops run over the columns (rows) \<open>x\<close> with
  \<^verbatim>\<open>Math.floor(min / cellSize) <= x < Math.ceil(max / cellSize)\<close>, given here as a list of
  integers (\<open>sweepRange\<close>). The ball is only written immediately before \<^verbatim>\<open>break\<close>, so
  every test of an iteration reads the ball as it was when the loop started. The four
  compound conditions under which a sweep stops the ball are named \<open>hitEast\<close>,
  \<open>hitWest\<close>, \<open>hitSouth\<close> and \<open>hitNorth\<close>.
\<close>

definition sweepRange :: "real \<Rightarrow> real \<Rightarrow> real \<Rightarrow> real \<Rightarrow> int list" where
  "sweepRange cellSize ballRadius old new =
     (let mn = min (old - ballRadius) (new - ballRadius);
          mx = max (old + ballRadius) (new + ballRadius)
      in [\<lfloor>mn / cellSize\<rfloor> .. \<lceil>mx / cellSize\<rceil> - 1])"

definition hitEast :: "cell \<Rightarrow> real \<Rightarrow> real \<Rightarrow> real \<Rightarrow> ball \<Rightarrow> int \<Rightarrow> bool" where
  "hitEast c cellSize ballRadius oldX b x =
     (ball_vx b > 0 \<and> east (cell_walls c)
      \<and> oldX + ballRadius \<le> (of_int x + 1) * cellSize
      \<and> ball_x b + ballRadius > (of_int x + 1) * cellSize)"

definition hitWest :: "cell \<Rightarrow> real \<Rightarrow> real \<Rightarrow> real \<Rightarrow> ball \<Rightarrow> int \<Rightarrow> bool" where
  "hitWest c cellSize ballRadius oldX b x =
     (ball_vx b < 0 \<and> west (cell_walls c)
      \<and> oldX - ballRadius \<ge> of_int x * cellSize
      \<and> ball_x b - ballRadius < of_int x * cellSize)"

definition hitSouth :: "cell \<Rightarrow> real \<Rightarrow> real \<Rightarrow> real \<Rightarrow> ball \<Rightarrow> int \<Rightarrow> bool" where
  "hitSouth c cellSize ballRadius oldY b y =
     (ball_vy b > 0 \<and> south (cell_walls c)
      \<and> oldY + ballRadius \<le> (of_int y + 1) * cellSize
      \<and> ball_y b + ballRadius > (of_int y + 1) * cellSize)"

definition hitNorth :: "cell \<Rightarrow> real \<Rightarrow> real \<Rightarrow> real \<Rightarrow> ball \<Rightarrow> int \<Rightarrow> bool" where
  "hitNorth c cellSize ballRadius oldY b y =
     (ball_vy b < 0 \<and> north (cell_walls c)
      \<and> oldY - ballRadius \<ge> of_int y * cellSize
      \<and> ball_y b - ballRadius < of_int y * cellSize)"

fun sweepX :: "maze \<Rightarrow> real \<Rightarrow> real \<Rightarrow> real \<Rightarrow> int \<Rightarrow> ball \<Rightarrow> int list \<Rightarrow> error + ball" where
  "sweepX m cellSize ballRadius oldX cellY b [] = Inr b"
| "sweepX m cellSize ballRadius oldX cellY b (x # xs) =
     (if x < 0 \<or> x \<ge> int (maze_size m) \<or> cellY < 0 \<or> cellY \<ge> int (maze_size m)
      then sweepX m cellSize ballRadius oldX cellY b xs
      else
        (case cellAt m cellY x of
           Inl e \<Rightarrow> Inl e
         | Inr c \<Rightarrow>
             if hitEast c cellSize ballRadius oldX b x
             then Inr (b\<lparr>ball_x := (of_int x + 1) * cellSize - ballRadius, ball_vx := 0\<rparr>)
             else if hitWest c cellSize ballRadius oldX b x
             then Inr (b\<lparr>ball_x := of_int x * cellSize + ballRadius, ball_vx := 0\<rparr>)
             else sweepX m cellSize ballRadius oldX cellY b xs))"

fun sweepY :: "maze \<Rightarrow> real \<Rightarrow> real \<Rightarrow> real \<Rightarrow> int \<Rightarrow> ball \<Rightarrow> int list \<Rightarrow> error + ball" where
  "sweepY m cellSize ballRadius oldY cellX b [] = Inr b"
| "sweepY m cellSize ballRadius oldY cellX b (y # ys) =
     (if y < 0 \<or> y \<ge> int (maze_size m) \<or> cellX < 0 \<or> cellX \<ge> int (maze_size m)
      then sweepY m cellSize ballRadius oldY cellX b ys
      else
        (case cellAt m y cellX of
           Inl e \<Rightarrow> Inl e
         | Inr c \<Rightarrow>
             if hitSouth c cellSize ballRadius oldY b y
             then Inr (b\<lparr>ball_y := (of_int y + 1) * cellSize - ballRadius, ball_vy := 0\<rparr>)
             else if hitNorth c cellSize ballRadius oldY b y
             then Inr (b\<lparr>ball_y := of_int y * cellSize + ballRadius, ball_vy := 0\<rparr>)
             else sweepY m cellSize ballRadius oldY cellX b ys))"

definition stepX :: "maze \<Rightarrow> real \<Rightarrow> real \<Rightarrow> real \<Rightarrow> ball \<Rightarrow> error + ball" where
  "stepX m cellSize ballRadius dt b0 =
     (let oldX = ball_x b0;
          b = b0\<lparr>ball_x := ball_x b0 + ball_vx b0 * dt\<rparr>
      in if ball_vx b \<noteq> 0
         then (let cellY = \<lfloor>ball_y b / cellSize\<rfloor>
               in sweepX m cellSize ballRadius oldX cellY b
                    (sweepRange cellSize ballRadius oldX (ball_x b)))
         else Inr b)"

definition stepY :: "maze \<Rightarrow> real \<Rightarrow> real \<Rightarrow> real \<Rightarrow> real \<Rightarrow> ball \<Rightarrow> error + ball" where
  "stepY m cellSize ballRadius dt oldY b0 =
     (let b = b0\<lparr>ball_y := ball_y b0 + ball_vy b0 * dt\<rparr>
      in if ball_vy b \<noteq> 0
         then (let cellX = \<lfloor>ball_x b / cellSize\<rfloor>
               in sweepY m cellSize ballRadius oldY cellX b
                    (sweepRange cellSize ballRadius oldY (ball_y b)))
         else Inr b)"

text \<open>The bounds check: four tests in sequence, each reading what the previous wrote.\<close>

definition boundsCheck :: "maze \<Rightarrow> real \<Rightarrow> real \<Rightarrow> ball \<Rightarrow> ball" where
  "boundsCheck m cellSize ballRadius b0 =
     (let b = (if ball_x b0 - ballRadius < 0
               then b0\<lparr>ball_x := ballRadius, ball_vx := 0\<rparr> else b0);
          b = (if ball_x b + ballRadius > real (maze_size m) * cellSize
               then b\<lparr>ball_x := real (maze_size m) * cellSize - ballRadius, ball_vx := 0\<rparr>
               else b);
          b = (if ball_y b - ballRadius < 0
               then b\<lparr>ball_y := ballRadius, ball_vy := 0\<rparr> else b);
          b = (if ball_y b + ballRadius > real (maze_size m) * cellSize
               then b\<lparr>ball_y := real (maze_size m) * cellSize - ballRadius, ball_vy := 0\<rparr>
               else b)
      in b)"

text \<open>
  The segment pass repeats one block of code for each of the four walls of a cell; the
  blocks differ in the end points of the segment and in the velocity component they clear.
  \<open>resolveWall\<close> is that block, with the end points \<open>(x1, y1)\<close>, \<open>(x2, y2)\<close> and the
  choice of component (\<open>zeroVx\<close>: clear \<open>vx\<close>, otherwise \<open>vy\<close>) as parameters.
  \<open>segmentDist\<close> is the block's \<^verbatim>\<open>dist\<close>, recomputed there from \<^verbatim>\<open>t\<close>,
  \<^verbatim>\<open>closestX\<close> and \<^verbatim>\<open>closestY\<close>; \<open>touchesSegment\<close> is the condition under which the
  block writes the ball.
\<close>

definition segmentDist :: "real \<Rightarrow> real \<Rightarrow> real \<Rightarrow> real \<Rightarrow> ball \<Rightarrow> real" where
  "segmentDist x1 y1 x2 y2 b =
     (let dx = x2 - x1;
          dy = y2 - y1;
          t = max 0 (min 1 (((ball_x b - x1) * dx + (ball_y b - y1) * dy)
                              / (dx * dx + dy * dy)));
          closestX = x1 + t * dx;
          closestY = y1 + t * dy
      in sqrt ((ball_x b - closestX) ^ 2 + (ball_y b - closestY) ^ 2))"

definition touchesSegment :: "real \<Rightarrow> real \<Rightarrow> real \<Rightarrow> real \<Rightarrow> real \<Rightarrow> ball \<Rightarrow> bool" where
  "touchesSegment ballRadius x1 y1 x2 y2 b =
     (let col = circleLineCollision (ball_x b) (ball_y b) ballRadius x1 y1 x2 y2
      in collides col \<and> nx col \<noteq> None \<and> ny col \<noteq> None
         \<and> ballRadius - segmentDist x1 y1 x2 y2 b > 0)"

definition resolveWall ::
  "real \<Rightarrow> real \<Rightarrow> real \<Rightarrow> real \<Rightarrow> real \<Rightarrow> bool \<Rightarrow> ball \<Rightarrow> ball" where
  "resolveWall ballRadius x1 y1 x2 y2 zeroVx b =
     (let col = circleLineCollision (ball_x b) (ball_y b) ballRadius x1 y1 x2 y2
      in case (collides col, nx col, ny col) of
           (True, Some cnx, Some cny) \<Rightarrow>
             (let overlap = ballRadius - segmentDist x1 y1 x2 y2 b
              in if overlap > 0
                 then (let b = b\<lparr>ball_x := ball_x b + cnx * overlap\<rparr>;
                           b = b\<lparr>ball_y := ball_y b + cny * overlap\<rparr>
                       in if zeroVx then b\<lparr>ball_vx := 0\<rparr> else b\<lparr>ball_vy := 0\<rparr>)
                 else b)
         | _ \<Rightarrow> b)"

definition resolveCell :: "real \<Rightarrow> real \<Rightarrow> int \<Rightarrow> int \<Rightarrow> cell \<Rightarrow> ball \<Rightarrow> ball" where
  "resolveCell cellSize ballRadius cx cy c b0 =
     (let cellX = of_int cx * cellSize;
          cellY = of_int cy * cellSize;
          b = (if north (cell_walls c)
               then resolveWall ballRadius cellX cellY (cellX + cellSize) cellY False b0
               else b0);
          b = (if south (cell_walls c)
               then resolveWall ballRadius cellX (cellY + cellSize) (cellX + cellSize)
                      (cellY + cellSize) False b
               else b);
          b = (if west (cell_walls c)
               then resolveWall ballRadius cellX cellY cellX (cellY + cellSize) True b
               else b);
          b = (if east (cell_walls c)
               then resolveWall ballRadius (cellX + cellSize) cellY (cellX + cellSize)
                      (cellY + cellSize) True b
               else b)
      in b)"

fun resolveCells :: "maze \<Rightarrow> real \<Rightarrow> real \<Rightarrow> (int \<times> int) list \<Rightarrow> ball \<Rightarrow> error + ball" where
  "resolveCells m cellSize ballRadius [] b = Inr b"
| "resolveCells m cellSize ballRadius ((cx, cy) # ps) b =
     (case cellAt m cy cx of
        Inl e \<Rightarrow> Inl e
      | Inr c \<Rightarrow> resolveCells m cellSize ballRadius ps (resolveCell cellSize ballRadius cx cy c b))"

text \<open>
  The cells the segment pass visits, rows outermost, in the order of the two loops; the
  four loop bounds are computed once, from the ball as the bounds check left it.
\<close>

definition cellRange :: "int \<Rightarrow> int \<Rightarrow> int \<Rightarrow> int \<Rightarrow> (int \<times> int) list" where
  "cellRange minCellX maxCellX minCellY maxCellY =
     concat (map (\<lambda>cy. map (\<lambda>cx. (cx, cy)) [minCellX .. maxCellX]) [minCellY .. maxCellY])"

definition segmentCells :: "maze \<Rightarrow> real \<Rightarrow> real \<Rightarrow> ball \<Rightarrow> (int \<times> int) list" where
  "segmentCells m cellSize ballRadius b =
     (let minCellX = max 0 \<lfloor>(ball_x b - ballRadius) / cellSize\<rfloor>;
          maxCellX = min (int (maze_size m) - 1) \<lfloor>(ball_x b + ballRadius) / cellSize\<rfloor>;
          minCellY = max 0 \<lfloor>(ball_y b - ballRadius) / cellSize\<rfloor>;
          maxCellY = min (int (maze_size m) - 1) \<lfloor>(ball_y b + ballRadius) / cellSize\<rfloor>
      in cellRange minCellX maxCellX minCellY maxCellY)"

definition resolveSegments :: "maze \<Rightarrow> real \<Rightarrow> real \<Rightarrow> ball \<Rightarrow> error + ball" where
  "resolveSegments m cellSize ballRadius b =
     resolveCells m cellSize ballRadius (segmentCells m cellSize ballRadius b) b"

text \<open>
  The two distances of the hazard test, named after the source's local constants. The
  hole's centre is the centre of its cell: \<^verbatim>\<open>(hole.x + 0.5) * cellSize\<close>.
\<close>

definition distToHole :: "ball \<Rightarrow> hole \<Rightarrow> real \<Rightarrow> real" where
  "distToHole b h cellSize =
     (let holeX = (real (hole_x h) + 0.5) * cellSize;
          holeY = (real (hole_y h) + 0.5) * cellSize
      in sqrt ((ball_x b - holeX) ^ 2 + (ball_y b - holeY) ^ 2))"

definition distToGoal :: "ball \<Rightarrow> maze \<Rightarrow> real \<Rightarrow> real" where
  "distToGoal b m cellSize =
     (let goalX = (real (hole_x (goal m)) + 0.5) * cellSize;
          goalY = (real (hole_y (goal m)) + 0.5) * cellSize
      in sqrt ((ball_x b - goalX) ^ 2 + (ball_y b - goalY) ^ 2))"

text \<open>The hole scan: the first hole within the radius ends the loop.\<close>

fun scanHoles :: "ball \<Rightarrow> real \<Rightarrow> real \<Rightarrow> hole list \<Rightarrow> outcome" where
  "scanHoles b cellSize holeRadius [] = \<lparr>reset = False, won = False\<rparr>"
| "scanHoles b cellSize holeRadius (h # hs) =
     (if distToHole b h cellSize < holeRadius
      then \<lparr>reset = True, won = False\<rparr>
      else scanHoles b cellSize holeRadius hs)"

definition checkHoles :: "ball \<Rightarrow> maze \<Rightarrow> config \<Rightarrow> real \<Rightarrow> outcome" where
  "checkHoles b m cfg cellSize =
     (let holeRadius = cellSize * HOLE_RADIUS_RATIO cfg;
          goalRadius = cellSize * GOAL_RADIUS_RATIO cfg
      in if distToGoal b m cellSize < goalRadius
         then \<lparr>reset = False, won = True\<rparr>
         else scanHoles b cellSize holeRadius (holes m))"

text \<open>
  \<open>moveBall\<close> is the part of \<^verbatim>\<open>updateBall\<close> that writes the ball: the velocity update
  and the two sweeps (\<open>sweepBall\<close>), then the bounds check and the segment pass.
  \<open>updateBall\<close> returns the ball it leaves behind together with the returned object.
\<close>

definition sweepBall ::
  "ball \<Rightarrow> inputState \<Rightarrow> maze \<Rightarrow> config \<Rightarrow> real \<Rightarrow> real \<Rightarrow> error + ball" where
  "sweepBall b0 inp m cfg cellSize dt =
     (let b = integrate b0 inp cfg dt;
          ballRadius = cellSize * BALL_RADIUS_RATIO cfg;
          oldY = ball_y b
      in case stepX m cellSize ballRadius dt b of
           Inl e \<Rightarrow> Inl e
         | Inr b \<Rightarrow> stepY m cellSize ballRadius dt oldY b)"

definition moveBall ::
  "ball \<Rightarrow> inputState \<Rightarrow> maze \<Rightarrow> config \<Rightarrow> real \<Rightarrow> real \<Rightarrow> error + ball" where
  "moveBall b0 inp m cfg cellSize dt =
     (let ballRadius = cellSize * BALL_RADIUS_RATIO cfg
      in case sweepBall b0 inp m cfg cellSize dt of
           Inl e \<Rightarrow> Inl e
         | Inr b \<Rightarrow>
             resolveSegments m cellSize ballRadius (boundsCheck m cellSize ballRadius b))"

definition updateBall ::
  "ball \<Rightarrow> inputState \<Rightarrow> maze \<Rightarrow> config \<Rightarrow> real \<Rightarrow> real \<Rightarrow> error + (ball \<times> outcome)" where
  "updateBall b0 inp m cfg cellSize dt =
     (case moveBall b0 inp m cfg cellSize dt of
        Inl e \<Rightarrow> Inl e
      | Inr b \<Rightarrow> Inr (b, checkHoles b m cfg cellSize))"

definition resetBall :: "real \<Rightarrow> ball" where
  "resetBall cellSize =
     \<lparr>ball_x = cellSize * 0.5, ball_y = cellSize * 0.5, ball_vx = 0, ball_vy = 0\<rparr>"

text \<open>The test files' \<^verbatim>\<open>createTestMaze\<close> and \<^verbatim>\<open>testConfig\<close>.\<close>

definition createTestMaze :: "nat \<Rightarrow> maze" where
  "createTestMaze n =
     \<lparr>maze_size = n,
      cells = map (\<lambda>y. map (\<lambda>x. \<lparr>cell_x = x, cell_y = y,
                 cell_walls = \<lparr>north = False, east = False, south = False, west = False\<rparr>\<rparr>)
                 [0..<n]) [0..<n],
      holes = [],
      goal = \<lparr>hole_x = n - 1, hole_y = n - 1, offsetX = None, offsetY = None\<rparr>\<rparr>"

definition testConfig :: config where
  "testConfig =
     \<lparr>GRID_SIZE = 3, GRAVITY = 1000, FRICTION = 0.98, BALL_RADIUS_RATIO = 0.4,
      HOLE_RADIUS_RATIO = 0.3, GOAL_RADIUS_RATIO = 0.35\<rparr>"

text \<open>The write \<^verbatim>\<open>maze.cells[row][col].walls.east = v\<close> of the tests.\<close>

definition setEast :: "maze \<Rightarrow> nat \<Rightarrow> nat \<Rightarrow> bool \<Rightarrow> maze" where
  "setEast m row col v =
     m\<lparr>cells := (cells m)[row := (cells m ! row)[col :=
          (cells m ! row ! col)\<lparr>cell_walls := (cell_walls (cells m ! row ! col))\<lparr>east := v\<rparr>\<rparr>]]\<rparr>"

text \<open>
  The maze of the test "should stop ball when hitting east wall from left": a 3 by 3
  test maze in which only the east wall of cell \<open>(0,0)\<close> is closed.
\<close>

definition wallTestMaze :: maze where
  "wallTestMaze = setEast (createTestMaze 3) 0 0 True"

text \<open>A 3 by 3 test maze with the given holes (the tests assign \<^verbatim>\<open>maze.holes\<close>).\<close>

definition holeTestMaze :: "hole list \<Rightarrow> maze" where
  "holeTestMaze hs = (createTestMaze 3)\<lparr>holes := hs\<rparr>"

text \<open>
  Where the 3D renderer draws a hole (\<^verbatim>\<open>Renderer3D.initialize\<close>):
  \<^verbatim>\<open>(hole.x + 0.5 + (hole.offsetX || 0)) * cellSize\<close> on each axis.
\<close>

definition renderedHoleCentre :: "hole \<Rightarrow> real \<Rightarrow> real \<times> real" where
  "renderedHoleCentre h cellSize =
     ((real (hole_x h) + 0.5 + (case offsetX h of None \<Rightarrow> 0 | Some d \<Rightarrow> d)) * cellSize,
      (real (hole_y h) + 0.5 + (case offsetY h of None \<Rightarrow> 0 | Some d \<Rightarrow> d)) * cellSize)"

text \<open>A grid of \<open>maze_size\<close> rows of \<open>maze_size\<close> cells, as \<^verbatim>\<open>Cell[][]\<close> is built.\<close>

definition wellShaped :: "maze \<Rightarrow> bool" where
  "wellShaped m =
     (length (cells m) = maze_size m \<and> list_all (\<lambda>row. length row = maze_size m) (cells m))"

section \<open>Maze generator (generateMaze)\<close>

text \<open>
  The model follows the version of \<^verbatim>\<open>generateMaze\<close> that declares the optional fields
  \<^verbatim>\<open>offsetX\<close>, \<^verbatim>\<open>offsetY\<close> of \<^verbatim>\<open>Hole\<close> and rejects holes with
  \<^verbatim>\<open>isAdjacentWithoutWall\<close>; the renderer reads the offsets it writes. The older version
  of the file has the same carving loop and a hole loop without the adjacency test and
  the offsets.

  A \<^verbatim>\<open>Cell\<close> object is created once per grid position with \<^verbatim>\<open>x\<close>, \<^verbatim>\<open>y\<close> equal to
  its column and row, and these fields are never written. The stack, the neighbour lists
  and the arguments of \<^verbatim>\<open>removeWall\<close> hold references to these objects; the model holds
  the pair \<open>(x, y)\<close> instead and writes the walls of the object at \<open>cells[y][x]\<close>. The
  \<^verbatim>\<open>Set\<close> of keys \<^verbatim>\<open>`${x},${y}`\<close> is a set of pairs.
\<close>

type_synonym grid = "cell list list"

type_synonym pos = "nat \<times> nat"

definition initCells :: "nat \<Rightarrow> grid" where
  "initCells n =
     map (\<lambda>y. map (\<lambda>x. \<lparr>cell_x = x, cell_y = y,
            cell_walls = \<lparr>north = True, east = True, south = True, west = True\<rparr>\<rparr>)
          [0..<n]) [0..<n]"

definition getNeighbors :: "nat \<Rightarrow> pos \<Rightarrow> pos list" where
  "getNeighbors n c =
     (case c of (x, y) \<Rightarrow>
        (if y > 0 then [(x, y - 1)] else [])
        @ (if x < n - 1 then [(x + 1, y)] else [])
        @ (if y < n - 1 then [(x, y + 1)] else [])
        @ (if x > 0 then [(x - 1, y)] else []))"

text \<open>Writing the walls of the cell object at a position.\<close>

definition updateWalls :: "(walls \<Rightarrow> walls) \<Rightarrow> pos \<Rightarrow> grid \<Rightarrow> grid" where
  "updateWalls f p g =
     (case p of (x, y) \<Rightarrow>
        g[y := (g ! y)[x := (g ! y ! x)\<lparr>cell_walls := f (cell_walls (g ! y ! x))\<rparr>]])"

definition removeWall :: "grid \<Rightarrow> pos \<Rightarrow> pos \<Rightarrow> grid" where
  "removeWall g current nxt =
     (let dx = int (fst nxt) - int (fst current);
          dy = int (snd nxt) - int (snd current)
      in if dx = 1
         then updateWalls (\<lambda>w. w\<lparr>west := False\<rparr>) nxt
                (updateWalls (\<lambda>w. w\<lparr>east := False\<rparr>) current g)
         else if dx = - 1
         then updateWalls (\<lambda>w. w\<lparr>east := False\<rparr>) nxt
                (updateWalls (\<lambda>w. w\<lparr>west := False\<rparr>) current g)
         else if dy = 1
         then updateWalls (\<lambda>w. w\<lparr>north := False\<rparr>) nxt
                (updateWalls (\<lambda>w. w\<lparr>south := False\<rparr>) current g)
         else if dy = - 1
         then updateWalls (\<lambda>w. w\<lparr>south := False\<rparr>) nxt
                (updateWalls (\<lambda>w. w\<lparr>north := False\<rparr>) current g)
         else g)"

text \<open>
  The carving loop. Its state is the grid, the stack (top at the end, as \<^verbatim>\<open>push\<close> and
  \<^verbatim>\<open>pop\<close> have it), the visited set and the RNG state. The loop is a partial function:
  \<open>None\<close> stands for a loop that does not end. The index \<^verbatim>\<open>rng.nextInt(neighbors.length)\<close>
  is below the length of the list (lemma \<open>nextInt_less\<close>).
\<close>

partial_function (option) carve ::
  "nat \<Rightarrow> grid \<Rightarrow> pos list \<Rightarrow> pos set \<Rightarrow> u32 \<Rightarrow> (grid \<times> u32) option" where
  "carve n g stack visited rng =
     (if length stack > 0
      then (let current = last stack;
                neighbors = filter (\<lambda>c. c \<notin> visited) (getNeighbors n current)
            in if length neighbors > 0
               then (case nextInt (length neighbors) rng of (i, rng') \<Rightarrow>
                       (let nxt = neighbors ! i
                        in carve n (removeWall g current nxt) (stack @ [nxt])
                             (insert nxt visited) rng'))
               else carve n g (butlast stack) visited rng)
      else Some (g, rng))"

definition isAdjacentWithoutWall :: "grid \<Rightarrow> nat \<Rightarrow> nat \<Rightarrow> nat \<Rightarrow> nat \<Rightarrow> bool" where
  "isAdjacentWithoutWall g x1 y1 x2 y2 =
     (let dx = \<bar>int x2 - int x1\<bar>;
          dy = \<bar>int y2 - int y1\<bar>
      in if \<not> ((dx = 1 \<and> dy = 0) \<or> (dx = 0 \<and> dy = 1))
         then False
         else if x2 = x1 + 1
         then \<not> east (cell_walls (g ! y1 ! x1))
         else if int x2 = int x1 - 1
         then \<not> west (cell_walls (g ! y1 ! x1))
         else if y2 = y1 + 1
         then \<not> south (cell_walls (g ! y1 ! x1))
         else if int y2 = int y1 - 1
         then \<not> north (cell_walls (g ! y1 ! x1))
         else False)"

text \<open>The inner loop over the holes placed so far, with its \<^verbatim>\<open>break\<close>.\<close>

fun hasAdjacentHole :: "grid \<Rightarrow> nat \<Rightarrow> nat \<Rightarrow> hole list \<Rightarrow> bool" where
  "hasAdjacentHole g x y [] = False"
| "hasAdjacentHole g x y (h # hs) =
     (if isAdjacentWithoutWall g x y (hole_x h) (hole_y h) then True
      else hasAdjacentHole g x y hs)"

text \<open>
  The hole loop. It has no bound on the number of attempts and no exit other than
  \<^verbatim>\<open>holes.length >= holeCount\<close>.
\<close>

partial_function (option) placeHoles ::
  "nat \<Rightarrow> nat \<Rightarrow> grid \<Rightarrow> hole list \<Rightarrow> pos set \<Rightarrow> u32 \<Rightarrow> (hole list \<times> u32) option" where
  "placeHoles n holeCount g hs usedPositions rng =
     (if length hs < holeCount
      then (case nextInt n rng of (x, rng1) \<Rightarrow>
             (case nextInt n rng1 of (y, rng2) \<Rightarrow>
                if (x, y) \<in> usedPositions
                then placeHoles n holeCount g hs usedPositions rng2
                else if hasAdjacentHole g x y hs
                then placeHoles n holeCount g hs usedPositions rng2
                else (case nextFloat (- 0.3) 0.3 rng2 of (ox, rng3) \<Rightarrow>
                       (case nextFloat (- 0.3) 0.3 rng3 of (oy, rng4) \<Rightarrow>
                          placeHoles n holeCount g
                            (hs @ [\<lparr>hole_x = x, hole_y = y, offsetX = Some ox,
                                    offsetY = Some oy\<rparr>])
                            (insert (x, y) usedPositions) rng4))))
      else Some (hs, rng))"

text \<open>
  \<^verbatim>\<open>generateMaze\<close>. With \<open>size = 0\<close> the grid is empty and reading \<^verbatim>\<open>cells[0][0]\<close>
  throws a TypeError. The result is \<open>None\<close> when a loop does not end.
\<close>

definition carveMaze :: "u32 \<Rightarrow> nat \<Rightarrow> (grid \<times> u32) option" where
  "carveMaze seed n = carve n (initCells n) [(0, 0)] {(0, 0)} (seedRNG seed)"

definition generateMaze :: "u32 \<Rightarrow> nat \<Rightarrow> nat \<Rightarrow> (error + maze) option" where
  "generateMaze seed n holeCount =
     (if n = 0 then Some (Inl TypeError)
      else
        (case carveMaze seed n of
           None \<Rightarrow> None
         | Some (g, rng) \<Rightarrow>
             (case placeHoles n holeCount g [] {(0, 0), (n - 1, n - 1)} rng of
                None \<Rightarrow> None
              | Some (hs, rng') \<Rightarrow>
                  Some (Inr \<lparr>maze_size = n, cells = g, holes = hs,
                             goal = \<lparr>hole_x = n - 1, hole_y = n - 1,
                                     offsetX = None, offsetY = None\<rparr>\<rparr>))))"

section \<open>Notions used to state the properties of the physics step\<close>

text \<open>
  The claims about \<^verbatim>\<open>updateBall\<close> speak of a ball that touches no wall and of the
  world square. The definitions below express these through the tests the code itself
  makes; none of them is part of the program.
\<close>

text \<open>
  Column \<open>x\<close> of the X sweep does not stop the ball: the iteration is skipped, or the
  cell is read and neither \<open>hitEast\<close> nor \<open>hitWest\<close> holds. Likewise for a row of the Y
  sweep.
\<close>

definition clearX :: "maze \<Rightarrow> real \<Rightarrow> real \<Rightarrow> real \<Rightarrow> int \<Rightarrow> ball \<Rightarrow> int \<Rightarrow> bool" where
  "clearX m cellSize ballRadius oldX cellY b x =
     (x < 0 \<or> x \<ge> int (maze_size m) \<or> cellY < 0 \<or> cellY \<ge> int (maze_size m)
      \<or> (case cellAt m cellY x of
            Inl e \<Rightarrow> False
          | Inr c \<Rightarrow> \<not> hitEast c cellSize ballRadius oldX b x
                     \<and> \<not> hitWest c cellSize ballRadius oldX b x))"

definition clearY :: "maze \<Rightarrow> real \<Rightarrow> real \<Rightarrow> real \<Rightarrow> int \<Rightarrow> ball \<Rightarrow> int \<Rightarrow> bool" where
  "clearY m cellSize ballRadius oldY cellX b y =
     (y < 0 \<or> y \<ge> int (maze_size m) \<or> cellX < 0 \<or> cellX \<ge> int (maze_size m)
      \<or> (case cellAt m y cellX of
            Inl e \<Rightarrow> False
          | Inr c \<Rightarrow> \<not> hitSouth c cellSize ballRadius oldY b y
                     \<and> \<not> hitNorth c cellSize ballRadius oldY b y))"

text \<open>
  The segment pass writes the ball at cell \<open>(cx, cy)\<close>: one of the closed walls of the
  cell is a segment the ball touches.
\<close>

definition touchesCell :: "real \<Rightarrow> real \<Rightarrow> int \<Rightarrow> int \<Rightarrow> cell \<Rightarrow> ball \<Rightarrow> bool" where
  "touchesCell cellSize ballRadius cx cy c b =
     (let cellX = of_int cx * cellSize;
          cellY = of_int cy * cellSize
      in (north (cell_walls c)
            \<and> touchesSegment ballRadius cellX cellY (cellX + cellSize) cellY b)
         \<or> (south (cell_walls c)
            \<and> touchesSegment ballRadius cellX (cellY + cellSize) (cellX + cellSize)
                 (cellY + cellSize) b)
         \<or> (west (cell_walls c)
            \<and> touchesSegment ballRadius cellX cellY cellX (cellY + cellSize) b)
         \<or> (east (cell_walls c)
            \<and> touchesSegment ballRadius (cellX + cellSize) cellY (cellX + cellSize)
                 (cellY + cellSize) b))"

definition clearCell :: "maze \<Rightarrow> real \<Rightarrow> real \<Rightarrow> ball \<Rightarrow> int \<times> int \<Rightarrow> bool" where
  "clearCell m cellSize ballRadius b p =
     (case cellAt m (snd p) (fst p) of
        Inl e \<Rightarrow> False
      | Inr c \<Rightarrow> \<not> touchesCell cellSize ballRadius (fst p) (snd p) c b)"

text \<open>
  A call in which the ball touches no wall and no world boundary: with the ball moved
  freely by the updated velocity, no column of the X sweep and no row of the Y sweep stops
  it, none of the four tests of the bounds check fires, and no cell of the segment pass
  has a closed wall the ball touches.
\<close>

definition unobstructed ::
  "ball \<Rightarrow> inputState \<Rightarrow> maze \<Rightarrow> config \<Rightarrow> real \<Rightarrow> real \<Rightarrow> bool" where
  "unobstructed b0 inp m cfg cellSize dt =
     (let b1 = integrate b0 inp cfg dt;
          ballRadius = cellSize * BALL_RADIUS_RATIO cfg;
          b2 = b1\<lparr>ball_x := ball_x b1 + ball_vx b1 * dt\<rparr>;
          b3 = b2\<lparr>ball_y := ball_y b2 + ball_vy b2 * dt\<rparr>
      in (ball_vx b1 = 0
            \<or> list_all (clearX m cellSize ballRadius (ball_x b1) \<lfloor>ball_y b2 / cellSize\<rfloor> b2)
                 (sweepRange cellSize ballRadius (ball_x b1) (ball_x b2)))
         \<and> (ball_vy b1 = 0
            \<or> list_all (clearY m cellSize ballRadius (ball_y b1) \<lfloor>ball_x b3 / cellSize\<rfloor> b3)
                 (sweepRange cellSize ballRadius (ball_y b1) (ball_y b3)))
         \<and> \<not> ball_x b3 - ballRadius < 0
         \<and> \<not> ball_x b3 + ballRadius > real (maze_size m) * cellSize
         \<and> \<not> ball_y b3 - ballRadius < 0
         \<and> \<not> ball_y b3 + ballRadius > real (maze_size m) * cellSize
         \<and> list_all (clearCell m cellSize ballRadius b3)
              (segmentCells m cellSize ballRadius b3))"

text \<open>The ball's extent lies within the world square \<open>[0, size * cellSize]\<^sup>2\<close>.\<close>

definition inBounds :: "maze \<Rightarrow> real \<Rightarrow> real \<Rightarrow> ball \<Rightarrow> bool" where
  "inBounds m cellSize ballRadius b =
     (ballRadius \<le> ball_x b \<and> ball_x b \<le> real (maze_size m) * cellSize - ballRadius
      \<and> ballRadius \<le> ball_y b \<and> ball_y b \<le> real (maze_size m) * cellSize - ballRadius)"

text \<open>The test configuration with a ball wider than a cell (radius \<open>0.6\<close> of the cell size).\<close>

definition bigBallConfig :: config where
  "bigBallConfig = testConfig\<lparr>BALL_RADIUS_RATIO := 0.6\<rparr>"

section \<open>Notions used to state the properties of the generator\<close>

text \<open>
  The cells of the grid, the shape \<^verbatim>\<open>Cell[][]\<close> has after the initialisation loops,
  and the walls of the cell object at a position.
\<close>

definition gridCells :: "nat \<Rightarrow> pos set" where
  "gridCells n = {0..<n} \<times> {0..<n}"

definition gridShape :: "nat \<Rightarrow> grid \<Rightarrow> bool" where
  "gridShape n g = (length g = n \<and> list_all (\<lambda>row. length row = n) g)"

definition wallsAt :: "grid \<Rightarrow> pos \<Rightarrow> walls" where
  "wallsAt g p = cell_walls (g ! snd p ! fst p)"

text \<open>
  A wall pair is the boundary between two adjoining cells. It is named by its western
  (for a vertical boundary) or northern (for a horizontal boundary) cell, and it is open
  when both cells have the flag of their side of it cleared. \<open>eastPairs\<close> and
  \<open>southPairs\<close> list the internal boundaries of the grid, \<open>openPairs\<close> counts the open
  ones.
\<close>

definition openEast :: "grid \<Rightarrow> pos \<Rightarrow> bool" where
  "openEast g p = (\<not> east (wallsAt g p) \<and> \<not> west (wallsAt g (fst p + 1, snd p)))"

definition openSouth :: "grid \<Rightarrow> pos \<Rightarrow> bool" where
  "openSouth g p = (\<not> south (wallsAt g p) \<and> \<not> north (wallsAt g (fst p, snd p + 1)))"

definition eastPairs :: "nat \<Rightarrow> pos list" where
  "eastPairs n = List.product [0..<n - 1] [0..<n]"

definition southPairs :: "nat \<Rightarrow> pos list" where
  "southPairs n = List.product [0..<n] [0..<n - 1]"

definition openPairs :: "nat \<Rightarrow> grid \<Rightarrow> nat" where
  "openPairs n g =
     length (filter (openEast g) (eastPairs n)) + length (filter (openSouth g) (southPairs n))"

text \<open>
  The cells a flood fill from \<open>(0,0)\<close> visits: the start cell, and every cell across an
  open wall pair from a visited cell.
\<close>

inductive reachable :: "nat \<Rightarrow> grid \<Rightarrow> pos \<Rightarrow> bool" for n :: nat and g :: grid where
  start: "0 < n \<Longrightarrow> reachable n g (0, 0)"
| goEast: "reachable n g (x, y) \<Longrightarrow> x + 1 < n \<Longrightarrow> y < n \<Longrightarrow> openEast g (x, y)
           \<Longrightarrow> reachable n g (x + 1, y)"
| goWest: "reachable n g (x + 1, y) \<Longrightarrow> x + 1 < n \<Longrightarrow> y < n \<Longrightarrow> openEast g (x, y)
           \<Longrightarrow> reachable n g (x, y)"
| goSouth: "reachable n g (x, y) \<Longrightarrow> x < n \<Longrightarrow> y + 1 < n \<Longrightarrow> openSouth g (x, y)
           \<Longrightarrow> reachable n g (x, y + 1)"
| goNorth: "reachable n g (x, y + 1) \<Longrightarrow> x < n \<Longrightarrow> y + 1 < n \<Longrightarrow> openSouth g (x, y)
           \<Longrightarrow> reachable n g (x, y)"

text \<open>Wall symmetry: the two cells of every internal boundary agree on it.\<close>

definition wallsSymmetric :: "nat \<Rightarrow> grid \<Rightarrow> bool" where
  "wallsSymmetric n g =
     ((\<forall>p \<in> set (eastPairs n). east (wallsAt g p) = west (wallsAt g (fst p + 1, snd p)))
      \<and> (\<forall>p \<in> set (southPairs n). south (wallsAt g p) = north (wallsAt g (fst p, snd p + 1))))"

text \<open>
  The position of a hole, the two reserved positions, and the Manhattan distance of two
  positions. \<open>wallToward g p q\<close> is the wall flag of cell \<open>p\<close> on the side of the
  adjoining cell \<open>q\<close>.
\<close>

definition holePos :: "hole \<Rightarrow> pos" where
  "holePos h = (hole_x h, hole_y h)"

definition corners :: "nat \<Rightarrow> pos set" where
  "corners n = {(0, 0), (n - 1, n - 1)}"

definition manhattan :: "pos \<Rightarrow> pos \<Rightarrow> int" where
  "manhattan p q = \<bar>int (fst p) - int (fst q)\<bar> + \<bar>int (snd p) - int (snd q)\<bar>"

definition wallToward :: "grid \<Rightarrow> pos \<Rightarrow> pos \<Rightarrow> bool" where
  "wallToward g p q =
     (if fst q = fst p + 1 then east (wallsAt g p)
      else if fst p = fst q + 1 then west (wallsAt g p)
      else if snd q = snd p + 1 then south (wallsAt g p)
      else north (wallsAt g p))"

text \<open>
  A placement the hole loop can produce, as the list of positions in the order of
  placement: distinct cells, none of them reserved, and no cell adjacent without wall
  (in the sense of \<^verbatim>\<open>isAdjacentWithoutWall\<close>, called as the loop calls it) to a cell
  placed before it.
\<close>

definition placedApart :: "grid \<Rightarrow> pos list \<Rightarrow> bool" where
  "placedApart g ps =
     (\<forall>j < length ps. \<forall>i < j.
        \<not> isAdjacentWithoutWall g (fst (ps ! j)) (snd (ps ! j)) (fst (ps ! i)) (snd (ps ! i)))"

definition validPlacement :: "nat \<Rightarrow> grid \<Rightarrow> pos list \<Rightarrow> bool" where
  "validPlacement n g ps =
     (distinct ps \<and> set ps \<subseteq> gridCells n - corners n \<and> placedApart g ps)"

text \<open>The offsets of a hole are two consecutive draws of \<^verbatim>\<open>nextFloat(-0.3, 0.3)\<close>.\<close>

definition offsetsDrawn :: "hole \<Rightarrow> bool" where
  "offsetsDrawn h =
     (\<exists>rng. offsetX h = Some (fst (nextFloat (- 0.3) 0.3 rng))
        \<and> offsetY h = Some (fst (nextFloat (- 0.3) 0.3 (snd (nextFloat (- 0.3) 0.3 rng)))))"

text \<open>
  Auxiliary notions of the proofs: what \<open>removeWall\<close> does to the walls when it opens the
  pair east (south) of \<open>a\<close>, and the invariants of the two loops. In \<open>carveInv\<close>: every
  visited cell is reached by the flood fill, the open pairs are one fewer than the visited
  cells, an unvisited cell has all its walls, and a visited cell that has left the stack
  has no unvisited neighbour.
\<close>

definition eastOpened :: "nat \<Rightarrow> grid \<Rightarrow> grid \<Rightarrow> pos \<Rightarrow> bool" where
  "eastOpened n g g' a =
     (gridShape n g'
      \<and> (\<forall>p \<in> gridCells n. wallsAt g' p =
            (if p = a then (wallsAt g p)\<lparr>east := False\<rparr>
             else if p = (fst a + 1, snd a) then (wallsAt g p)\<lparr>west := False\<rparr>
             else wallsAt g p)))"

definition southOpened :: "nat \<Rightarrow> grid \<Rightarrow> grid \<Rightarrow> pos \<Rightarrow> bool" where
  "southOpened n g g' a =
     (gridShape n g'
      \<and> (\<forall>p \<in> gridCells n. wallsAt g' p =
            (if p = a then (wallsAt g p)\<lparr>south := False\<rparr>
             else if p = (fst a, snd a + 1) then (wallsAt g p)\<lparr>north := False\<rparr>
             else wallsAt g p)))"

definition carveInv :: "nat \<Rightarrow> grid \<Rightarrow> pos list \<Rightarrow> pos set \<Rightarrow> bool" where
  "carveInv n g stack visited =
     (gridShape n g \<and> wallsSymmetric n g
      \<and> visited \<subseteq> gridCells n \<and> (0, 0) \<in> visited \<and> set stack \<subseteq> visited
      \<and> (\<forall>p \<in> visited. reachable n g p)
      \<and> openPairs n g + 1 = card visited
      \<and> (\<forall>p \<in> gridCells n - visited.
            wallsAt g p = \<lparr>north = True, east = True, south = True, west = True\<rparr>)
      \<and> (\<forall>p \<in> visited - set stack. set (getNeighbors n p) \<subseteq> visited))"

definition holesInv :: "nat \<Rightarrow> grid \<Rightarrow> hole list \<Rightarrow> pos set \<Rightarrow> bool" where
  "holesInv n g hs used =
     (used = corners n \<union> set (map holePos hs)
      \<and> validPlacement n g (map holePos hs)
      \<and> list_all offsetsDrawn hs)"

text \<open>
  A concrete instance: the grid that the carving leaves for seed 0 and size 3, and the
  maze that \<open>generateMaze\<close> returns for seed 0, size 3 and two holes. The two holes lie
  in the neighbouring cells \<open>(1,1)\<close> and \<open>(2,1)\<close>, with the wall between them closed.
\<close>

definition seedZeroGrid :: grid where
  "seedZeroGrid =
     [[\<lparr>cell_x = 0, cell_y = 0, cell_walls = \<lparr>north = True, east = False, south = True, west = True\<rparr>\<rparr>,
       \<lparr>cell_x = 1, cell_y = 0, cell_walls = \<lparr>north = True, east = False, south = True, west = False\<rparr>\<rparr>,
       \<lparr>cell_x = 2, cell_y = 0, cell_walls = \<lparr>north = True, east = True, south = False, west = False\<rparr>\<rparr>],
      [\<lparr>cell_x = 0, cell_y = 1, cell_walls = \<lparr>north = True, east = False, south = False, west = True\<rparr>\<rparr>,
       \<lparr>cell_x = 1, cell_y = 1, cell_walls = \<lparr>north = True, east = True, south = True, west = False\<rparr>\<rparr>,
       \<lparr>cell_x = 2, cell_y = 1, cell_walls = \<lparr>north = False, east = True, south = False, west = True\<rparr>\<rparr>],
      [\<lparr>cell_x = 0, cell_y = 2, cell_walls = \<lparr>north = False, east = False, south = True, west = True\<rparr>\<rparr>,
       \<lparr>cell_x = 1, cell_y = 2, cell_walls = \<lparr>north = True, east = False, south = True, west = False\<rparr>\<rparr>,
       \<lparr>cell_x = 2, cell_y = 2, cell_walls = \<lparr>north = False, east = True, south = True, west = False\<rparr>\<rparr>]]"

definition seedZeroMaze :: maze where
  "seedZeroMaze =
     \<lparr>maze_size = 3, cells = seedZeroGrid,
      holes =
     [\<lparr>hole_x = 1, hole_y = 1, offsetX = Some (- 0.3 + 1057668038 / 4294967296 * 0.6), offsetY = Some (- 0.3 + 420269829 / 4294967296 * 0.6)\<rparr>,
      \<lparr>hole_x = 2, hole_y = 1, offsetX = Some (- 0.3 + 3093645806 / 4294967296 * 0.6), offsetY = Some (- 0.3 + 2834277798 / 4294967296 * 0.6)\<rparr>],
      goal = \<lparr>hole_x = 2, hole_y = 2, offsetX = None, offsetY = None\<rparr>\<rparr>"

section \<open>Properties of the RNG\<close>

lemma unat_rng_mix: "unat (rng_mix s) = spec_mix (unat s)"
proof -
  define a where "a = (s XOR drop_bit 15 s) * (1 OR s)"
  define b where "b = (a + (a XOR drop_bit 7 a) * (61 OR a)) XOR a"
  have ua: "unat a = ((unat s XOR drop_bit 15 (unat s)) * (unat s OR 1)) mod 2 ^ 32"
    by (simp add: a_def unat_word_ariths unsigned_xor_eq unsigned_or_eq unat_drop_bit_eq
        or.commute)
  have ub: "unat b =
      ((unat a + ((unat a XOR drop_bit 7 (unat a)) * (unat a OR 61)) mod 2 ^ 32) mod 2 ^ 32)
        XOR unat a"
    by (simp add: b_def unat_word_ariths unsigned_xor_eq unsigned_or_eq unat_drop_bit_eq
        or.commute)
  have lt: "unat (b XOR drop_bit 14 b) < 2 ^ 32"
    using unsigned_less [of "b XOR drop_bit 14 b", where 'a = nat] by simp
  have "unat (rng_mix s) = unat (b XOR drop_bit 14 b)"
    by (simp add: rng_mix_def a_def b_def Let_def)
  also have "\<dots> = unat (b XOR drop_bit 14 b) mod 2 ^ 32"
    using lt by simp
  also have "unat (b XOR drop_bit 14 b) = unat b XOR drop_bit 14 (unat b)"
    by (simp add: unsigned_xor_eq unat_drop_bit_eq)
  finally have fin: "unat (rng_mix s) = (unat b XOR drop_bit 14 (unat b)) mod 2 ^ 32" .
  show ?thesis
    unfolding spec_mix_def Let_def ua [symmetric] ub [symmetric] by (rule fin)
qed

lemma rng_next_matches_spec:
  "fst (rng_next s) = fst (spec_nextUnit (unat s))
   \<and> unat (snd (rng_next s)) = snd (spec_nextUnit (unat s))"
proof -
  have st: "unat (s + 0x6d2b79f5) = (unat s + 0x6D2B79F5) mod 2 ^ 32"
    by (simp add: unat_word_ariths)
  have l: "rng_next s = (real (spec_mix (unat (s + 0x6d2b79f5))) / 4294967296, s + 0x6d2b79f5)"
    by (simp only: rng_next_def Let_def unat_rng_mix)
  have r: "spec_nextUnit (unat s) =
      (real (spec_mix (unat (s + 0x6d2b79f5))) / 2 ^ 32, unat (s + 0x6d2b79f5))"
    by (simp only: spec_nextUnit_def Let_def st)
  have p: "(2::real) ^ 32 = 4294967296"
    by simp
  show ?thesis
    by (simp only: l r p fst_conv snd_conv simp_thms)
qed

lemma rng_next_range: "0 \<le> fst (rng_next s) \<and> fst (rng_next s) < 1"
proof -
  define k where "k = unat (rng_mix (s + 0x6d2b79f5))"
  have "k < 4294967296"
    unfolding k_def
    using unsigned_less [of "rng_mix (s + 0x6d2b79f5)", where 'a = nat] by simp
  then have "real k < 4294967296"
    by simp
  moreover have "fst (rng_next s) = real k / 4294967296"
    by (simp add: rng_next_def Let_def k_def)
  ultimately show ?thesis
    by simp
qed

lemma rng_take_matches_spec: "rng_take n s = spec_take n (unat s)"
proof (induction n arbitrary: s)
  case 0
  show ?case by simp
next
  case (Suc n)
  show ?case
    using rng_next_matches_spec [of s] Suc.IH [of "snd (rng_next s)"] by simp
qed

text \<open>
  C3. Each call of the RNG returns a value in \<open>[0,1)\<close> that is exactly the value the
  specified mixing computes from the 32-bit state, and leaves exactly the specified next
  state; hence the sequence of values is a function of the seed alone, equal call for
  call to the specified sequence.
\<close>

theorem rng_next_is_mulberry32:
  "fst (rng_next s) = fst (spec_nextUnit (unat s))
   \<and> unat (snd (rng_next s)) = snd (spec_nextUnit (unat s))
   \<and> 0 \<le> fst (rng_next s) \<and> fst (rng_next s) < 1
   \<and> rng_take n (seedRNG seed) = spec_take n (unat seed)"
  using rng_next_matches_spec [of s] rng_next_range [of s] rng_take_matches_spec [of n seed]
  by (simp add: seedRNG_def)

section \<open>Properties of the physics step\<close>

subsection \<open>Evaluation helpers\<close>

lemma upt3: "[0..<3] = [0, 1, 2]"
  by (simp add: upt_rec)

lemma upto01: "[0..1] = [0, 1::int]"
  by (simp add: upto.simps)

lemma upto00: "[0..0] = [0::int]"
  by (simp add: upto.simps)

lemma upto12: "[1..2] = [1, 2::int]"
  by (simp add: upto.simps)

lemma upto22: "[2..2] = [2::int]"
  by (simp add: upto.simps)

lemma upto11: "[1..1] = [1::int]"
  by (simp add: upto.simps)

lemma sqrt1600: "sqrt 1600 = 40"
  by (rule real_sqrt_unique) simp_all

lemma sqrt1225: "sqrt 1225 = 35"
  by (rule real_sqrt_unique) simp_all

lemma wallTest_cell00:
  "cellAt wallTestMaze 0 0 =
     Inr \<lparr>cell_x = 0, cell_y = 0,
          cell_walls = \<lparr>north = False, east = True, south = False, west = False\<rparr>\<rparr>"
  by (simp add: wallTestMaze_def setEast_def createTestMaze_def upt3 cellAt_def)

lemma wallTest_cell10:
  "cellAt wallTestMaze 0 1 =
     Inr \<lparr>cell_x = 1, cell_y = 0,
          cell_walls = \<lparr>north = False, east = False, south = False, west = False\<rparr>\<rparr>"
  by (simp add: wallTestMaze_def setEast_def createTestMaze_def upt3 cellAt_def)

lemma wallTest_size: "maze_size wallTestMaze = 3"
  by (simp add: wallTestMaze_def setEast_def createTestMaze_def)

lemma wallTest_stepX:
  "stepX wallTestMaze 100 40 (1 / 10) \<lparr>ball_x = 50, ball_y = 50, ball_vx = 588, ball_vy = 0\<rparr>
     = Inr \<lparr>ball_x = 60, ball_y = 50, ball_vx = 0, ball_vy = 0\<rparr>"
  by (simp add: stepX_def sweepRange_def hitEast_def hitWest_def Let_def upto01 wallTest_cell00
      wallTest_size)

lemma wallTest_stepY:
  "stepY wallTestMaze 100 40 (1 / 10) 50 \<lparr>ball_x = 60, ball_y = 50, ball_vx = 0, ball_vy = 0\<rparr>
     = Inr \<lparr>ball_x = 60, ball_y = 50, ball_vx = 0, ball_vy = 0\<rparr>"
  by (simp add: stepY_def Let_def)

lemma wallTest_bounds:
  "boundsCheck wallTestMaze 100 40 \<lparr>ball_x = 60, ball_y = 50, ball_vx = 0, ball_vy = 0\<rparr>
     = \<lparr>ball_x = 60, ball_y = 50, ball_vx = 0, ball_vy = 0\<rparr>"
  by (simp add: boundsCheck_def Let_def wallTest_size)

lemma wallTest_resolve:
  "resolveSegments wallTestMaze 100 40 \<lparr>ball_x = 60, ball_y = 50, ball_vx = 0, ball_vy = 0\<rparr>
     = Inr \<lparr>ball_x = 60, ball_y = 50, ball_vx = 0, ball_vy = 0\<rparr>"
  by (simp add: resolveSegments_def segmentCells_def cellRange_def Let_def wallTest_size upto01
      upto00 wallTest_cell00 wallTest_cell10 resolveCell_def resolveWall_def segmentDist_def
      circleLineCollision_def sqrt1600)

lemma wallTest_moveBall:
  "moveBall \<lparr>ball_x = 50, ball_y = 50, ball_vx = 500, ball_vy = 0\<rparr> \<lparr>tiltX = 1, tiltY = 0\<rparr>
     wallTestMaze testConfig 100 0.1
     = Inr \<lparr>ball_x = 60, ball_y = 50, ball_vx = 0, ball_vy = 0\<rparr>"
  by (simp add: moveBall_def sweepBall_def integrate_def testConfig_def Let_def wallTest_stepX
      wallTest_stepY wallTest_bounds wallTest_resolve)

lemma holeTest_fields:
  "maze_size (holeTestMaze hs) = 3" "holes (holeTestMaze hs) = hs"
  "goal (holeTestMaze hs) = \<lparr>hole_x = 2, hole_y = 2, offsetX = None, offsetY = None\<rparr>"
  by (simp_all add: holeTestMaze_def createTestMaze_def)

lemma holeTest_cellAt:
  assumes "0 \<le> row" "row < 3" "0 \<le> col" "col < 3"
  shows "cellAt (holeTestMaze hs) row col =
     Inr \<lparr>cell_x = nat col, cell_y = nat row,
          cell_walls = \<lparr>north = False, east = False, south = False, west = False\<rparr>\<rparr>"
proof -
  from assms have "nat row < 3" "nat col < 3"
    by linarith+
  then show ?thesis
    using assms by (simp add: cellAt_def holeTestMaze_def createTestMaze_def)
qed

lemma resolveCell_open:
  "\<not> north (cell_walls c) \<Longrightarrow> \<not> south (cell_walls c) \<Longrightarrow> \<not> west (cell_walls c)
   \<Longrightarrow> \<not> east (cell_walls c) \<Longrightarrow> resolveCell cellSize r cx cy c b = b"
  by (simp add: resolveCell_def)

lemma holeTest_resolveCells:
  "list_all (\<lambda>(cx, cy). 0 \<le> cx \<and> cx < 3 \<and> 0 \<le> cy \<and> cy < 3) ps
   \<Longrightarrow> resolveCells (holeTestMaze hs) cellSize r ps b = Inr b"
  by (induction ps) (auto simp: holeTest_cellAt resolveCell_open)

lemma list_all_cellRange:
  "0 \<le> a \<Longrightarrow> b < 3 \<Longrightarrow> 0 \<le> c \<Longrightarrow> d < 3
   \<Longrightarrow> list_all (\<lambda>(cx, cy). 0 \<le> cx \<and> cx < 3 \<and> 0 \<le> cy \<and> cy < 3) (cellRange a b c d)"
  by (auto simp: cellRange_def list_all_iff)

lemma holeTest_resolveSegments:
  "resolveSegments (holeTestMaze hs) cellSize r b = Inr b"
  unfolding resolveSegments_def segmentCells_def Let_def
  by (rule holeTest_resolveCells, rule list_all_cellRange) (simp_all add: holeTest_fields)

text \<open>A ball at rest well inside the open test maze, with no tilt, stays where it is.\<close>

lemma holeTest_rest:
  assumes "40 \<le> x" "x \<le> 260" "40 \<le> y" "y \<le> 260"
  shows "moveBall \<lparr>ball_x = x, ball_y = y, ball_vx = 0, ball_vy = 0\<rparr> \<lparr>tiltX = 0, tiltY = 0\<rparr>
           (holeTestMaze hs) testConfig 100 dt
         = Inr \<lparr>ball_x = x, ball_y = y, ball_vx = 0, ball_vy = 0\<rparr>"
  using assms
  by (simp add: moveBall_def sweepBall_def integrate_def testConfig_def Let_def stepX_def
      stepY_def boundsCheck_def holeTest_fields holeTest_resolveSegments)

lemma scanHoles_none:
  "list_all (\<lambda>h. holeRadius \<le> distToHole b h cellSize) hs
   \<Longrightarrow> scanHoles b cellSize holeRadius hs = \<lparr>reset = False, won = False\<rparr>"
  by (induction hs) auto

lemma scanHoles_reset:
  "reset (scanHoles b cellSize holeRadius hs)
   \<Longrightarrow> \<exists>h \<in> set hs. distToHole b h cellSize < holeRadius"
  by (induction hs) (auto split: if_splits)

lemma scanHoles_not_won: "\<not> won (scanHoles b cellSize holeRadius hs)"
  by (induction hs) auto

text \<open>
  C2. In the 3 by 3 test maze whose only closed wall is the east wall of cell \<open>(0,0)\<close>,
  with cell size 100 and the test configuration, one call of \<open>updateBall\<close> with
  \<open>dt = 0.1\<close> and tilt \<open>(1, 0)\<close> on a ball at \<open>(50, 50)\<close> with velocity \<open>(500, 0)\<close>
  returns normally and leaves the ball with \<open>x \<le> 100 - 0.4 * 100 = 60\<close> and \<open>vx = 0\<close>.
\<close>

theorem straight_wall_stop:
  "\<exists>b out.
     updateBall \<lparr>ball_x = 50, ball_y = 50, ball_vx = 500, ball_vy = 0\<rparr>
       \<lparr>tiltX = 1, tiltY = 0\<rparr> wallTestMaze testConfig 100 0.1 = Inr (b, out)
     \<and> ball_x b \<le> 100 - 100 * BALL_RADIUS_RATIO testConfig
     \<and> ball_x b \<le> 60
     \<and> ball_vx b = 0"
  unfolding updateBall_def wallTest_moveBall by (simp add: testConfig_def)

text \<open>
  C6. Whenever the position the ball is left at lies within the goal's trigger radius and
  within some hole's trigger radius at once, \<open>updateBall\<close> returns the win outcome
  \<open>{reset: false, won: true}\<close>: the goal is tested first and returns at once.
\<close>

theorem goal_priority:
  assumes "0 < cellSize"
    and "moveBall b0 inp m cfg cellSize dt = Inr b"
    and "distToGoal b m cellSize < cellSize * GOAL_RADIUS_RATIO cfg"
    and "\<exists>h \<in> set (holes m). distToHole b h cellSize < cellSize * HOLE_RADIUS_RATIO cfg"
  shows "updateBall b0 inp m cfg cellSize dt = Inr (b, \<lparr>reset = False, won = True\<rparr>)"
  using assms by (simp add: updateBall_def checkHoles_def)

theorem goal_priority_witness:
  "(0::real) < 100
   \<and> moveBall \<lparr>ball_x = 250, ball_y = 250, ball_vx = 0, ball_vy = 0\<rparr> \<lparr>tiltX = 0, tiltY = 0\<rparr>
       (holeTestMaze [\<lparr>hole_x = 2, hole_y = 2, offsetX = None, offsetY = None\<rparr>])
       testConfig 100 0.016
       = Inr \<lparr>ball_x = 250, ball_y = 250, ball_vx = 0, ball_vy = 0\<rparr>
   \<and> (\<exists>h \<in> set (holes (holeTestMaze
                [\<lparr>hole_x = 2, hole_y = 2, offsetX = None, offsetY = None\<rparr>])).
         distToHole \<lparr>ball_x = 250, ball_y = 250, ball_vx = 0, ball_vy = 0\<rparr> h 100
           < 100 * HOLE_RADIUS_RATIO testConfig)
   \<and> updateBall \<lparr>ball_x = 250, ball_y = 250, ball_vx = 0, ball_vy = 0\<rparr>
       \<lparr>tiltX = 0, tiltY = 0\<rparr>
       (holeTestMaze [\<lparr>hole_x = 2, hole_y = 2, offsetX = None, offsetY = None\<rparr>])
       testConfig 100 0.016
       = Inr (\<lparr>ball_x = 250, ball_y = 250, ball_vx = 0, ball_vy = 0\<rparr>,
              \<lparr>reset = False, won = True\<rparr>)"
proof -
  let ?b = "\<lparr>ball_x = 250, ball_y = 250, ball_vx = 0, ball_vy = 0\<rparr>"
  let ?m = "holeTestMaze [\<lparr>hole_x = 2, hole_y = 2, offsetX = None, offsetY = None\<rparr>]"
  have mv: "moveBall ?b \<lparr>tiltX = 0, tiltY = 0\<rparr> ?m testConfig 100 0.016 = Inr ?b"
    by (rule holeTest_rest) simp_all
  have g: "distToGoal ?b ?m 100 < 100 * GOAL_RADIUS_RATIO testConfig"
    by (simp add: distToGoal_def holeTest_fields testConfig_def)
  have h: "\<exists>h \<in> set (holes ?m). distToHole ?b h 100 < 100 * HOLE_RADIUS_RATIO testConfig"
    by (simp add: distToHole_def holeTest_fields testConfig_def)
  have pos: "(0::real) < 100"
    by simp
  from goal_priority [OF pos mv g h] mv h pos show ?thesis
    by blast
qed

text \<open>
  C10. The two triggers are strict. If \<open>updateBall\<close> returns with the ball at a distance
  from the goal centre exactly equal to the goal radius, and at a distance of at least
  the hole radius from the centre of every hole, the outcome is
  \<open>{reset: false, won: false}\<close>. A win is only returned at a distance strictly below the
  goal radius, a reset only with some hole at a distance strictly below the hole radius.
\<close>

theorem triggers_are_strict:
  assumes "0 < cellSize"
    and "updateBall b0 inp m cfg cellSize dt = Inr (b, out)"
  shows "(distToGoal b m cellSize = cellSize * GOAL_RADIUS_RATIO cfg
          \<and> list_all (\<lambda>h. cellSize * HOLE_RADIUS_RATIO cfg \<le> distToHole b h cellSize) (holes m)
          \<longrightarrow> out = \<lparr>reset = False, won = False\<rparr>)
       \<and> (won out \<longrightarrow> distToGoal b m cellSize < cellSize * GOAL_RADIUS_RATIO cfg)
       \<and> (reset out \<longrightarrow>
            (\<exists>h \<in> set (holes m). distToHole b h cellSize < cellSize * HOLE_RADIUS_RATIO cfg))"
proof -
  from assms(2) have out: "out = checkHoles b m cfg cellSize"
    by (auto simp: updateBall_def split: sum.splits)
  show ?thesis
    unfolding out checkHoles_def Let_def
    using scanHoles_reset [of b cellSize "cellSize * HOLE_RADIUS_RATIO cfg" "holes m"]
      scanHoles_not_won [of b cellSize "cellSize * HOLE_RADIUS_RATIO cfg" "holes m"]
      scanHoles_none [of "cellSize * HOLE_RADIUS_RATIO cfg" b cellSize "holes m"]
    by auto
qed

lemma sqrt_ge_30: "30 \<le> sqrt 14225"
  by (rule real_le_rsqrt) simp

theorem triggers_are_strict_witness:
  "(0::real) < 100
   \<and> updateBall \<lparr>ball_x = 215, ball_y = 250, ball_vx = 0, ball_vy = 0\<rparr>
       \<lparr>tiltX = 0, tiltY = 0\<rparr>
       (holeTestMaze [\<lparr>hole_x = 1, hole_y = 1, offsetX = None, offsetY = None\<rparr>])
       testConfig 100 0.016
       = Inr (\<lparr>ball_x = 215, ball_y = 250, ball_vx = 0, ball_vy = 0\<rparr>,
              \<lparr>reset = False, won = False\<rparr>)
   \<and> distToGoal \<lparr>ball_x = 215, ball_y = 250, ball_vx = 0, ball_vy = 0\<rparr>
       (holeTestMaze [\<lparr>hole_x = 1, hole_y = 1, offsetX = None, offsetY = None\<rparr>]) 100
       = 100 * GOAL_RADIUS_RATIO testConfig
   \<and> list_all (\<lambda>h. 100 * HOLE_RADIUS_RATIO testConfig
          \<le> distToHole \<lparr>ball_x = 215, ball_y = 250, ball_vx = 0, ball_vy = 0\<rparr> h 100)
        (holes (holeTestMaze [\<lparr>hole_x = 1, hole_y = 1, offsetX = None, offsetY = None\<rparr>]))"
proof -
  let ?b = "\<lparr>ball_x = 215, ball_y = 250, ball_vx = 0, ball_vy = 0\<rparr>"
  let ?m = "holeTestMaze [\<lparr>hole_x = 1, hole_y = 1, offsetX = None, offsetY = None\<rparr>]"
  have mv: "moveBall ?b \<lparr>tiltX = 0, tiltY = 0\<rparr> ?m testConfig 100 0.016 = Inr ?b"
    by (rule holeTest_rest) simp_all
  have up: "updateBall ?b \<lparr>tiltX = 0, tiltY = 0\<rparr> ?m testConfig 100 0.016
      = Inr (?b, checkHoles ?b ?m testConfig 100)"
    unfolding updateBall_def mv by simp
  have g: "distToGoal ?b ?m 100 = 100 * GOAL_RADIUS_RATIO testConfig"
    by (simp add: distToGoal_def holeTest_fields testConfig_def sqrt1225)
  have h: "list_all (\<lambda>h. 100 * HOLE_RADIUS_RATIO testConfig \<le> distToHole ?b h 100) (holes ?m)"
    by (simp add: distToHole_def holeTest_fields testConfig_def sqrt_ge_30)
  have pos: "(0::real) < 100"
    by simp
  from triggers_are_strict [OF pos up] g h
  have "checkHoles ?b ?m testConfig 100 = \<lparr>reset = False, won = False\<rparr>"
    by blast
  with up g h pos show ?thesis
    by simp
qed

lemma sqrt_1250_ge_30: "30 \<le> sqrt 1250"
  by (rule real_le_rsqrt) simp

lemma sqrt_11250_ge_35: "35 \<le> sqrt 11250"
  by (rule real_le_rsqrt) simp

text \<open>
  C9. The holes of a generated maze carry offsets drawn by \<^verbatim>\<open>nextFloat(-0.3, 0.3)\<close> (lemma
  \<open>generateMaze_placement\<close> below), but the hazard test of \<open>updateBall\<close> does not use the
  offset of a hole. With a hole in cell \<open>(1,1)\<close> whose offset is \<open>0.25\<close> on both axes, a ball
  resting exactly on the centre at which the hole is drawn, \<open>(175, 175)\<close>, is not reset:
  \<open>updateBall\<close> measures the distance to the centre of the cell, \<open>(150, 150)\<close>, which is
  more than the hole radius \<open>30\<close> away.
\<close>

theorem hazard_ignores_offset:
  "renderedHoleCentre \<lparr>hole_x = 1, hole_y = 1, offsetX = Some 0.25, offsetY = Some 0.25\<rparr> 100
     = (175, 175)
   \<and> updateBall \<lparr>ball_x = 175, ball_y = 175, ball_vx = 0, ball_vy = 0\<rparr>
       \<lparr>tiltX = 0, tiltY = 0\<rparr>
       (holeTestMaze [\<lparr>hole_x = 1, hole_y = 1, offsetX = Some 0.25, offsetY = Some 0.25\<rparr>])
       testConfig 100 0.016
     = Inr (\<lparr>ball_x = 175, ball_y = 175, ball_vx = 0, ball_vy = 0\<rparr>,
            \<lparr>reset = False, won = False\<rparr>)"
proof -
  let ?b = "\<lparr>ball_x = 175, ball_y = 175, ball_vx = 0, ball_vy = 0\<rparr>"
  let ?m = "holeTestMaze [\<lparr>hole_x = 1, hole_y = 1, offsetX = Some 0.25, offsetY = Some 0.25\<rparr>]"
  have mv: "moveBall ?b \<lparr>tiltX = 0, tiltY = 0\<rparr> ?m testConfig 100 0.016 = Inr ?b"
    by (rule holeTest_rest) simp_all
  have ck: "checkHoles ?b ?m testConfig 100 = \<lparr>reset = False, won = False\<rparr>"
    by (simp add: checkHoles_def distToGoal_def distToHole_def holeTest_fields testConfig_def
        sqrt_1250_ge_30 sqrt_11250_ge_35 not_less)
  have c: "renderedHoleCentre
      \<lparr>hole_x = 1, hole_y = 1, offsetX = Some 0.25, offsetY = Some 0.25\<rparr> 100 = (175, 175)"
    by (simp add: renderedHoleCentre_def)
  show ?thesis
    unfolding updateBall_def mv using ck c by simp
qed

subsection \<open>Velocity update and free motion\<close>

lemma cellAt_wellShaped:
  assumes "wellShaped m" "0 \<le> row" "row < int (maze_size m)" "0 \<le> col" "col < int (maze_size m)"
  shows "cellAt m row col = Inr (cells m ! nat row ! nat col)"
proof -
  from assms have r: "nat row < length (cells m)"
    by (simp add: wellShaped_def)
  with assms(1) have "length (cells m ! nat row) = maze_size m"
    by (simp add: wellShaped_def list_all_length)
  with assms r show ?thesis
    by (simp add: cellAt_def)
qed

lemma sweepX_clear:
  "list_all (clearX m cellSize r oldX cellY b) xs \<Longrightarrow> sweepX m cellSize r oldX cellY b xs = Inr b"
  by (induction xs) (auto simp: clearX_def split: sum.splits)

lemma sweepY_clear:
  "list_all (clearY m cellSize r oldY cellX b) ys \<Longrightarrow> sweepY m cellSize r oldY cellX b ys = Inr b"
  by (induction ys) (auto simp: clearY_def split: sum.splits)

lemma resolveWall_clear:
  "\<not> touchesSegment r x1 y1 x2 y2 b \<Longrightarrow> resolveWall r x1 y1 x2 y2 z b = b"
  by (auto simp: touchesSegment_def resolveWall_def Let_def split: bool.splits option.splits)

lemma resolveCell_clear:
  "\<not> touchesCell cellSize r cx cy c b \<Longrightarrow> resolveCell cellSize r cx cy c b = b"
  by (simp add: touchesCell_def resolveCell_def Let_def resolveWall_clear)

lemma resolveCells_clear:
  "list_all (clearCell m cellSize r b) ps \<Longrightarrow> resolveCells m cellSize r ps b = Inr b"
  by (induction ps) (auto simp: clearCell_def resolveCell_clear split: sum.splits)

lemma integrate_fields:
  "ball_vx (integrate b inp cfg dt) = (ball_vx b + tiltX inp * GRAVITY cfg * dt) * FRICTION cfg"
  "ball_vy (integrate b inp cfg dt) = (ball_vy b + tiltY inp * GRAVITY cfg * dt) * FRICTION cfg"
  "ball_x (integrate b inp cfg dt) = ball_x b"
  "ball_y (integrate b inp cfg dt) = ball_y b"
  by (simp_all add: integrate_def Let_def)

lemma unobstructed_moveBall:
  assumes "unobstructed b0 inp m cfg cellSize dt"
  shows "moveBall b0 inp m cfg cellSize dt =
     Inr ((integrate b0 inp cfg dt)
          \<lparr>ball_x := ball_x b0 + ball_vx (integrate b0 inp cfg dt) * dt,
            ball_y := ball_y b0 + ball_vy (integrate b0 inp cfg dt) * dt\<rparr>)"
proof -
  define b1 where "b1 = integrate b0 inp cfg dt"
  define r where "r = cellSize * BALL_RADIUS_RATIO cfg"
  define b2 where "b2 = b1\<lparr>ball_x := ball_x b1 + ball_vx b1 * dt\<rparr>"
  define b3 where "b3 = b2\<lparr>ball_y := ball_y b2 + ball_vy b2 * dt\<rparr>"
  from assms have
    cx: "ball_vx b1 = 0
         \<or> list_all (clearX m cellSize r (ball_x b1) \<lfloor>ball_y b2 / cellSize\<rfloor> b2)
             (sweepRange cellSize r (ball_x b1) (ball_x b2))"
    and cy: "ball_vy b1 = 0
         \<or> list_all (clearY m cellSize r (ball_y b1) \<lfloor>ball_x b3 / cellSize\<rfloor> b3)
             (sweepRange cellSize r (ball_y b1) (ball_y b3))"
    and bd: "\<not> ball_x b3 - r < 0" "\<not> ball_x b3 + r > real (maze_size m) * cellSize"
      "\<not> ball_y b3 - r < 0" "\<not> ball_y b3 + r > real (maze_size m) * cellSize"
    and cc: "list_all (clearCell m cellSize r b3) (segmentCells m cellSize r b3)"
    by (simp_all add: unobstructed_def Let_def b1_def r_def b2_def b3_def)
  have sx: "stepX m cellSize r dt b1 = Inr b2"
    using cx by (auto simp: stepX_def Let_def b2_def sweepX_clear)
  have sy: "stepY m cellSize r dt (ball_y b1) b2 = Inr b3"
    using cy by (auto simp: stepY_def Let_def b3_def b2_def sweepY_clear)
  have sw: "sweepBall b0 inp m cfg cellSize dt = Inr b3"
    using sx sy by (simp add: sweepBall_def Let_def b1_def [symmetric] r_def [symmetric])
  have bc: "boundsCheck m cellSize r b3 = b3"
    using bd by (simp add: boundsCheck_def Let_def)
  have rs: "resolveSegments m cellSize r b3 = Inr b3"
    using cc by (simp add: resolveSegments_def resolveCells_clear)
  have "moveBall b0 inp m cfg cellSize dt = Inr b3"
    using sw bc rs by (simp add: moveBall_def Let_def r_def [symmetric])
  then show ?thesis
    by (simp add: b3_def b2_def b1_def integrate_fields)
qed

text \<open>
  C7. The velocity update sets each component to \<open>(v + tilt * GRAVITY * dt) * FRICTION\<close>:
  the acceleration is scaled by \<open>dt\<close>, the friction factor is applied once and is not.
  When the call touches no wall and no world boundary (\<open>unobstructed\<close>), \<open>updateBall\<close>
  returns and the velocity it leaves is exactly that value on both axes; the hazard test
  never writes the ball, so holes and goal need no hypothesis.
\<close>

theorem free_motion_velocity:
  assumes "0 < cellSize"
  shows "ball_vx (integrate b0 inp cfg dt) = (ball_vx b0 + tiltX inp * GRAVITY cfg * dt) * FRICTION cfg
     \<and> ball_vy (integrate b0 inp cfg dt) = (ball_vy b0 + tiltY inp * GRAVITY cfg * dt) * FRICTION cfg
     \<and> (unobstructed b0 inp m cfg cellSize dt \<longrightarrow>
         (\<exists>b out. updateBall b0 inp m cfg cellSize dt = Inr (b, out)
            \<and> ball_vx b = (ball_vx b0 + tiltX inp * GRAVITY cfg * dt) * FRICTION cfg
            \<and> ball_vy b = (ball_vy b0 + tiltY inp * GRAVITY cfg * dt) * FRICTION cfg))"
  using unobstructed_moveBall [of b0 inp m cfg cellSize dt]
  by (auto simp: updateBall_def integrate_fields)

lemma free_unobstructed:
  "unobstructed \<lparr>ball_x = 150, ball_y = 150, ball_vx = 100, ball_vy = 0\<rparr>
     \<lparr>tiltX = 0.5, tiltY = 0\<rparr> (holeTestMaze []) testConfig 100 0.016"
  by (simp add: unobstructed_def integrate_def testConfig_def Let_def sweepRange_def upto11
      clearX_def hitEast_def hitWest_def holeTest_fields holeTest_cellAt segmentCells_def
      cellRange_def clearCell_def touchesCell_def)

theorem free_motion_velocity_witness:
  "(0::real) < 100
   \<and> unobstructed \<lparr>ball_x = 150, ball_y = 150, ball_vx = 100, ball_vy = 0\<rparr>
       \<lparr>tiltX = 0.5, tiltY = 0\<rparr> (holeTestMaze []) testConfig 100 0.016
   \<and> (\<exists>b out. updateBall \<lparr>ball_x = 150, ball_y = 150, ball_vx = 100, ball_vy = 0\<rparr>
        \<lparr>tiltX = 0.5, tiltY = 0\<rparr> (holeTestMaze []) testConfig 100 0.016 = Inr (b, out)
        \<and> ball_vx b = 105.84 \<and> ball_vy b = 0)"
proof -
  have pos: "(0::real) < 100" by simp
  from free_motion_velocity [OF pos, of "\<lparr>ball_x = 150, ball_y = 150, ball_vx = 100, ball_vy = 0\<rparr>"
      "\<lparr>tiltX = 0.5, tiltY = 0\<rparr>" testConfig "0.016" "holeTestMaze []"] free_unobstructed
  show ?thesis
    by (auto simp: testConfig_def)
qed

subsection \<open>The world square\<close>

lemma wallTest_cell01:
  "cellAt wallTestMaze 1 0 =
     Inr \<lparr>cell_x = 0, cell_y = 1,
          cell_walls = \<lparr>north = False, east = False, south = False, west = False\<rparr>\<rparr>"
  by (simp add: wallTestMaze_def setEast_def createTestMaze_def upt3 cellAt_def)

lemma wallTest_cell11:
  "cellAt wallTestMaze 1 1 =
     Inr \<lparr>cell_x = 1, cell_y = 1,
          cell_walls = \<lparr>north = False, east = False, south = False, west = False\<rparr>\<rparr>"
  by (simp add: wallTestMaze_def setEast_def createTestMaze_def upt3 cellAt_def)

lemma sqrt_80200_ge_35: "35 \<le> sqrt 80200"
  by (rule real_le_rsqrt) simp

lemma bigBall_moveBall:
  "moveBall \<lparr>ball_x = 60, ball_y = 50, ball_vx = 0, ball_vy = 0\<rparr> \<lparr>tiltX = 0, tiltY = 0\<rparr>
     wallTestMaze bigBallConfig 100 0.016
   = Inr \<lparr>ball_x = 40, ball_y = 60, ball_vx = 0, ball_vy = 0\<rparr>"
proof -
  have sw: "sweepBall \<lparr>ball_x = 60, ball_y = 50, ball_vx = 0, ball_vy = 0\<rparr>
      \<lparr>tiltX = 0, tiltY = 0\<rparr> wallTestMaze bigBallConfig 100 0.016
      = Inr \<lparr>ball_x = 60, ball_y = 50, ball_vx = 0, ball_vy = 0\<rparr>"
    by (simp add: sweepBall_def integrate_def Let_def stepX_def stepY_def)
  have bc: "boundsCheck wallTestMaze 100 60 \<lparr>ball_x = 60, ball_y = 50, ball_vx = 0, ball_vy = 0\<rparr>
      = \<lparr>ball_x = 60, ball_y = 60, ball_vx = 0, ball_vy = 0\<rparr>"
    by (simp add: boundsCheck_def Let_def wallTest_size)
  have sc: "segmentCells wallTestMaze 100 60 \<lparr>ball_x = 60, ball_y = 60, ball_vx = 0, ball_vy = 0\<rparr>
      = [(0, 0), (1, 0), (0, 1), (1, 1)]"
    by (simp add: segmentCells_def cellRange_def Let_def wallTest_size upto01)
  have rw: "resolveWall 60 100 0 100 100 True \<lparr>ball_x = 60, ball_y = 60, ball_vx = 0, ball_vy = 0\<rparr>
      = \<lparr>ball_x = 40, ball_y = 60, ball_vx = 0, ball_vy = 0\<rparr>"
    by (simp add: resolveWall_def segmentDist_def circleLineCollision_def Let_def sqrt1600)
  have rs: "resolveSegments wallTestMaze 100 60 \<lparr>ball_x = 60, ball_y = 60, ball_vx = 0, ball_vy = 0\<rparr>
      = Inr \<lparr>ball_x = 40, ball_y = 60, ball_vx = 0, ball_vy = 0\<rparr>"
    unfolding resolveSegments_def sc
    by (simp add: wallTest_cell00 wallTest_cell10 wallTest_cell01 wallTest_cell11 resolveCell_def
        Let_def rw)
  have r: "100 * BALL_RADIUS_RATIO bigBallConfig = 60"
    by (simp add: bigBallConfig_def)
  show ?thesis
    unfolding moveBall_def Let_def sw r by (simp add: bc rs)
qed

text \<open>
  C5. The ball that \<open>updateBall\<close> leaves need not lie within the world square: the segment
  pass runs after the bounds check, moves the ball, and no clamp follows it. With
  \<open>BALL_RADIUS_RATIO = 0.6\<close> (radius 60 in cells of size 100) and a resting ball at
  \<open>(60, 50)\<close> in the wall test maze, the bounds check fires on the y axis and puts the ball
  at \<open>(60, 60)\<close>; the segment pass then finds the east wall of cell \<open>(0,0)\<close> at distance
  \<open>40 < 60\<close> and pushes the ball to \<open>x = 40\<close>. The call returns the ball at \<open>(40, 60)\<close>,
  whose edge is at \<open>x = -20\<close>, outside the world square.
\<close>

theorem segment_pass_leaves_square:
  "100 * BALL_RADIUS_RATIO bigBallConfig = 60
   \<and> boundsCheck wallTestMaze 100 60 \<lparr>ball_x = 60, ball_y = 50, ball_vx = 0, ball_vy = 0\<rparr>
       = \<lparr>ball_x = 60, ball_y = 60, ball_vx = 0, ball_vy = 0\<rparr>
   \<and> updateBall \<lparr>ball_x = 60, ball_y = 50, ball_vx = 0, ball_vy = 0\<rparr> \<lparr>tiltX = 0, tiltY = 0\<rparr>
       wallTestMaze bigBallConfig 100 0.016
     = Inr (\<lparr>ball_x = 40, ball_y = 60, ball_vx = 0, ball_vy = 0\<rparr>, \<lparr>reset = False, won = False\<rparr>)
   \<and> \<not> inBounds wallTestMaze 100 60 \<lparr>ball_x = 40, ball_y = 60, ball_vx = 0, ball_vy = 0\<rparr>"
proof -
  have r: "100 * BALL_RADIUS_RATIO bigBallConfig = 60"
    by (simp add: bigBallConfig_def)
  have bc: "boundsCheck wallTestMaze 100 60 \<lparr>ball_x = 60, ball_y = 50, ball_vx = 0, ball_vy = 0\<rparr>
      = \<lparr>ball_x = 60, ball_y = 60, ball_vx = 0, ball_vy = 0\<rparr>"
    by (simp add: boundsCheck_def Let_def wallTest_size)
  have ck: "checkHoles \<lparr>ball_x = 40, ball_y = 60, ball_vx = 0, ball_vy = 0\<rparr> wallTestMaze
      bigBallConfig 100 = \<lparr>reset = False, won = False\<rparr>"
    by (simp add: checkHoles_def distToGoal_def wallTestMaze_def setEast_def createTestMaze_def
        bigBallConfig_def testConfig_def sqrt_80200_ge_35 not_less)
  have up: "updateBall \<lparr>ball_x = 60, ball_y = 50, ball_vx = 0, ball_vy = 0\<rparr>
      \<lparr>tiltX = 0, tiltY = 0\<rparr> wallTestMaze bigBallConfig 100 0.016
      = Inr (\<lparr>ball_x = 40, ball_y = 60, ball_vx = 0, ball_vy = 0\<rparr>, \<lparr>reset = False, won = False\<rparr>)"
    unfolding updateBall_def bigBall_moveBall using ck by simp
  have nb: "\<not> inBounds wallTestMaze 100 60 \<lparr>ball_x = 40, ball_y = 60, ball_vx = 0, ball_vy = 0\<rparr>"
    by (simp add: inBounds_def)
  from r bc up nb show ?thesis
    by simp
qed

section \<open>Properties of the generator\<close>

subsection \<open>The grid and its wall pairs\<close>

lemma set_eastPairs: "set (eastPairs n) = {p. fst p + 1 < n \<and> snd p < n}"
  by (auto simp: eastPairs_def)

lemma set_southPairs: "set (southPairs n) = {p. fst p < n \<and> snd p + 1 < n}"
  by (auto simp: southPairs_def)

lemma distinct_eastPairs: "distinct (eastPairs n)"
  by (simp add: eastPairs_def distinct_product)

lemma distinct_southPairs: "distinct (southPairs n)"
  by (simp add: southPairs_def distinct_product)

lemma gridCells_iff: "p \<in> gridCells n \<longleftrightarrow> fst p < n \<and> snd p < n"
  by (cases p) (simp add: gridCells_def)

lemma finite_gridCells: "finite (gridCells n)"
  by (simp add: gridCells_def)

lemma card_gridCells: "card (gridCells n) = n * n"
  by (simp add: gridCells_def)

lemma gridShape_nth:
  "gridShape n g \<Longrightarrow> y < n \<Longrightarrow> length (g ! y) = n"
  by (simp add: gridShape_def list_all_length)

lemma gridShape_updateWalls:
  "gridShape n g \<Longrightarrow> gridShape n (updateWalls f p g)"
proof (cases p)
  case (Pair x y)
  assume sh: "gridShape n g"
  show ?thesis
  proof (cases "y < length g")
    case True
    with sh show ?thesis
      by (auto simp: Pair gridShape_def updateWalls_def list_all_length nth_list_update)
  next
    case False
    then have "g[y := (g ! y)[x := (g ! y ! x)\<lparr>cell_walls := f (cell_walls (g ! y ! x))\<rparr>]] = g"
      by (intro list_update_beyond) simp
    with sh show ?thesis
      by (simp add: Pair updateWalls_def)
  qed
qed

lemma wallsAt_updateWalls:
  assumes "gridShape n g" "p \<in> gridCells n" "q \<in> gridCells n"
  shows "wallsAt (updateWalls f p g) q = (if q = p then f (wallsAt g p) else wallsAt g q)"
proof -
  obtain x y where p: "p = (x, y)" by (cases p)
  obtain x' y' where q: "q = (x', y')" by (cases q)
  from assms p q have b: "x < n" "y < n" "x' < n" "y' < n"
    by (simp_all add: gridCells_iff)
  from assms(1) b have l: "length g = n" "length (g ! y) = n"
    by (simp_all add: gridShape_def list_all_length)
  show ?thesis
    using b l by (auto simp: p q wallsAt_def updateWalls_def nth_list_update)
qed

lemma gridShape_initCells: "gridShape n (initCells n)"
  by (simp add: gridShape_def initCells_def list_all_length)

lemma wallsAt_initCells:
  "p \<in> gridCells n \<Longrightarrow>
   wallsAt (initCells n) p = \<lparr>north = True, east = True, south = True, west = True\<rparr>"
  by (simp add: gridCells_iff wallsAt_def initCells_def)

lemma removeWall_cases:
  assumes sh: "gridShape n g" and c: "cur \<in> gridCells n" and nb: "nxt \<in> set (getNeighbors n cur)"
  shows "nxt \<in> gridCells n
     \<and> ((\<exists>a \<in> set (eastPairs n). {cur, nxt} = {a, (fst a + 1, snd a)}
            \<and> eastOpened n g (removeWall g cur nxt) a)
        \<or> (\<exists>a \<in> set (southPairs n). {cur, nxt} = {a, (fst a, snd a + 1)}
            \<and> southOpened n g (removeWall g cur nxt) a))"
proof -
  obtain x y where cur: "cur = (x, y)" by (cases cur)
  from c cur have xy: "x < n" "y < n" by (simp_all add: gridCells_iff)
  from nb cur consider
      (N) "0 < y" "nxt = (x, y - 1)"
    | (E) "x < n - 1" "nxt = (x + 1, y)"
    | (S) "y < n - 1" "nxt = (x, y + 1)"
    | (W) "0 < x" "nxt = (x - 1, y)"
    by (auto simp: getNeighbors_def split: if_splits)
  then show ?thesis
  proof cases
    case E
    then have ng: "nxt \<in> gridCells n" using xy by (simp add: gridCells_iff)
    have rw: "removeWall g cur nxt = updateWalls (\<lambda>w. w\<lparr>west := False\<rparr>) nxt
                (updateWalls (\<lambda>w. w\<lparr>east := False\<rparr>) cur g)"
      using E by (simp add: removeWall_def cur Let_def)
    have "eastOpened n g (removeWall g cur nxt) cur"
      unfolding eastOpened_def rw
      using sh c ng E cur
      by (auto simp: gridShape_updateWalls wallsAt_updateWalls [where n = n])
    moreover have "cur \<in> set (eastPairs n)"
      using E xy cur by (simp add: set_eastPairs)
    ultimately show ?thesis
      using ng E cur by auto
  next
    case W
    then have ng: "nxt \<in> gridCells n" using xy by (simp add: gridCells_iff)
    have rw: "removeWall g cur nxt = updateWalls (\<lambda>w. w\<lparr>east := False\<rparr>) nxt
                (updateWalls (\<lambda>w. w\<lparr>west := False\<rparr>) cur g)"
      using W by (simp add: removeWall_def cur Let_def)
    have cn: "cur = (fst nxt + 1, snd nxt)" using W cur by simp
    have "eastOpened n g (removeWall g cur nxt) nxt"
      unfolding eastOpened_def rw
      using sh c ng W cur
      by (auto simp: gridShape_updateWalls wallsAt_updateWalls [where n = n])
    moreover have "nxt \<in> set (eastPairs n)"
      using W xy cur by (simp add: set_eastPairs)
    ultimately show ?thesis
      using ng cn by blast
  next
    case S
    then have ng: "nxt \<in> gridCells n" using xy by (simp add: gridCells_iff)
    have rw: "removeWall g cur nxt = updateWalls (\<lambda>w. w\<lparr>north := False\<rparr>) nxt
                (updateWalls (\<lambda>w. w\<lparr>south := False\<rparr>) cur g)"
      using S by (simp add: removeWall_def cur Let_def)
    have "southOpened n g (removeWall g cur nxt) cur"
      unfolding southOpened_def rw
      using sh c ng S cur
      by (auto simp: gridShape_updateWalls wallsAt_updateWalls [where n = n])
    moreover have "cur \<in> set (southPairs n)"
      using S xy cur by (simp add: set_southPairs)
    ultimately show ?thesis
      using ng S cur by auto
  next
    case N
    then have ng: "nxt \<in> gridCells n" using xy by (simp add: gridCells_iff)
    have rw: "removeWall g cur nxt = updateWalls (\<lambda>w. w\<lparr>south := False\<rparr>) nxt
                (updateWalls (\<lambda>w. w\<lparr>north := False\<rparr>) cur g)"
      using N by (simp add: removeWall_def cur Let_def)
    have cn: "cur = (fst nxt, snd nxt + 1)" using N cur by simp
    have "southOpened n g (removeWall g cur nxt) nxt"
      unfolding southOpened_def rw
      using sh c ng N cur
      by (auto simp: gridShape_updateWalls wallsAt_updateWalls [where n = n])
    moreover have "nxt \<in> set (southPairs n)"
      using N xy cur by (simp add: set_southPairs)
    ultimately show ?thesis
      using ng cn by blast
  qed
qed

lemma length_filter_one_more:
  "distinct xs \<Longrightarrow> a \<in> set xs \<Longrightarrow> \<not> P a \<Longrightarrow> (\<forall>p \<in> set xs. Q p = (P p \<or> p = a))
   \<Longrightarrow> length (filter Q xs) = Suc (length (filter P xs))"
proof (induction xs)
  case Nil
  then show ?case by simp
next
  case (Cons x xs)
  show ?case
  proof (cases "x = a")
    case True
    with Cons.prems have "a \<notin> set xs" by simp
    with Cons.prems have "\<forall>p \<in> set xs. Q p = P p" by auto
    then have "filter Q xs = filter P xs" by (intro filter_cong) simp_all
    with True Cons.prems show ?thesis by simp
  next
    case False
    with Cons.prems have "length (filter Q xs) = Suc (length (filter P xs))"
      by (intro Cons.IH) auto
    moreover from False Cons.prems have "Q x = P x" by auto
    ultimately show ?thesis by simp
  qed
qed

lemma reachable_mono:
  assumes "reachable n g p"
    and "\<And>q. q \<in> set (eastPairs n) \<Longrightarrow> openEast g q \<Longrightarrow> openEast g' q"
    and "\<And>q. q \<in> set (southPairs n) \<Longrightarrow> openSouth g q \<Longrightarrow> openSouth g' q"
  shows "reachable n g' p"
  using assms(1)
proof induction
  case start
  then show ?case by (rule reachable.start)
next
  case (goEast x y)
  then have "openEast g' (x, y)"
    using assms(2) [of "(x, y)"] by (simp add: set_eastPairs)
  with goEast show ?case
    by (auto intro: reachable.goEast simp del: One_nat_def)
next
  case (goWest x y)
  then have "openEast g' (x, y)"
    using assms(2) [of "(x, y)"] by (simp add: set_eastPairs)
  with goWest show ?case
    by (auto intro: reachable.goWest simp del: One_nat_def)
next
  case (goSouth x y)
  then have "openSouth g' (x, y)"
    using assms(3) [of "(x, y)"] by (simp add: set_southPairs)
  with goSouth show ?case
    by (auto intro: reachable.goSouth simp del: One_nat_def)
next
  case (goNorth x y)
  then have "openSouth g' (x, y)"
    using assms(3) [of "(x, y)"] by (simp add: set_southPairs)
  with goNorth show ?case
    by (auto intro: reachable.goNorth simp del: One_nat_def)
qed

lemma reachable_in_grid: "reachable n g p \<Longrightarrow> p \<in> gridCells n"
  by (induction rule: reachable.induct) (simp_all add: gridCells_iff)

lemma eastOpened_flags:
  assumes eo: "eastOpened n g g' (ax, ay)" and b: "x < n" "y < n"
  shows "east (wallsAt g' (x, y)) = (east (wallsAt g (x, y)) \<and> \<not> (x = ax \<and> y = ay))"
    and "west (wallsAt g' (x, y)) = (west (wallsAt g (x, y)) \<and> \<not> (x = ax + 1 \<and> y = ay))"
    and "north (wallsAt g' (x, y)) = north (wallsAt g (x, y))"
    and "south (wallsAt g' (x, y)) = south (wallsAt g (x, y))"
proof -
  from b have "(x, y) \<in> gridCells n" by (simp add: gridCells_iff)
  with eo have w: "wallsAt g' (x, y) =
            (if (x, y) = (ax, ay) then (wallsAt g (x, y))\<lparr>east := False\<rparr>
             else if (x, y) = (ax + 1, ay) then (wallsAt g (x, y))\<lparr>west := False\<rparr>
             else wallsAt g (x, y))"
    unfolding eastOpened_def by (metis fst_conv snd_conv)
  show "east (wallsAt g' (x, y)) = (east (wallsAt g (x, y)) \<and> \<not> (x = ax \<and> y = ay))"
    and "west (wallsAt g' (x, y)) = (west (wallsAt g (x, y)) \<and> \<not> (x = ax + 1 \<and> y = ay))"
    and "north (wallsAt g' (x, y)) = north (wallsAt g (x, y))"
    and "south (wallsAt g' (x, y)) = south (wallsAt g (x, y))"
    unfolding w by auto
qed

lemma southOpened_flags:
  assumes eo: "southOpened n g g' (ax, ay)" and b: "x < n" "y < n"
  shows "south (wallsAt g' (x, y)) = (south (wallsAt g (x, y)) \<and> \<not> (x = ax \<and> y = ay))"
    and "north (wallsAt g' (x, y)) = (north (wallsAt g (x, y)) \<and> \<not> (x = ax \<and> y = ay + 1))"
    and "east (wallsAt g' (x, y)) = east (wallsAt g (x, y))"
    and "west (wallsAt g' (x, y)) = west (wallsAt g (x, y))"
proof -
  from b have "(x, y) \<in> gridCells n" by (simp add: gridCells_iff)
  with eo have w: "wallsAt g' (x, y) =
            (if (x, y) = (ax, ay) then (wallsAt g (x, y))\<lparr>south := False\<rparr>
             else if (x, y) = (ax, ay + 1) then (wallsAt g (x, y))\<lparr>north := False\<rparr>
             else wallsAt g (x, y))"
    unfolding southOpened_def by (metis fst_conv snd_conv)
  show "south (wallsAt g' (x, y)) = (south (wallsAt g (x, y)) \<and> \<not> (x = ax \<and> y = ay))"
    and "north (wallsAt g' (x, y)) = (north (wallsAt g (x, y)) \<and> \<not> (x = ax \<and> y = ay + 1))"
    and "east (wallsAt g' (x, y)) = east (wallsAt g (x, y))"
    and "west (wallsAt g' (x, y)) = west (wallsAt g (x, y))"
    unfolding w by auto
qed

lemma eastOpened_effects:
  assumes eo: "eastOpened n g g' a" and a: "a \<in> set (eastPairs n)"
  shows "\<forall>p \<in> set (eastPairs n). openEast g' p = (openEast g p \<or> p = a)"
    and "\<forall>p \<in> set (southPairs n). openSouth g' p = openSouth g p"
    and "wallsSymmetric n g \<Longrightarrow> wallsSymmetric n g'"
proof -
  obtain ax ay where a': "a = (ax, ay)" by (cases a)
  note fl = eastOpened_flags [OF eo [unfolded a']]
  from a a' have ab: "ax + 1 < n" "ay < n" by (simp_all add: set_eastPairs)
  show "\<forall>p \<in> set (eastPairs n). openEast g' p = (openEast g p \<or> p = a)"
    using ab by (auto simp: set_eastPairs openEast_def a' fl)
  show "\<forall>p \<in> set (southPairs n). openSouth g' p = openSouth g p"
    by (auto simp: set_southPairs openSouth_def fl)
  show "wallsSymmetric n g'" if "wallsSymmetric n g"
    using that ab by (auto simp: wallsSymmetric_def set_eastPairs set_southPairs fl)
qed

lemma southOpened_effects:
  assumes eo: "southOpened n g g' a" and a: "a \<in> set (southPairs n)"
  shows "\<forall>p \<in> set (southPairs n). openSouth g' p = (openSouth g p \<or> p = a)"
    and "\<forall>p \<in> set (eastPairs n). openEast g' p = openEast g p"
    and "wallsSymmetric n g \<Longrightarrow> wallsSymmetric n g'"
proof -
  obtain ax ay where a': "a = (ax, ay)" by (cases a)
  note fl = southOpened_flags [OF eo [unfolded a']]
  from a a' have ab: "ax < n" "ay + 1 < n" by (simp_all add: set_southPairs)
  show "\<forall>p \<in> set (southPairs n). openSouth g' p = (openSouth g p \<or> p = a)"
    using ab by (auto simp: set_southPairs openSouth_def a' fl)
  show "\<forall>p \<in> set (eastPairs n). openEast g' p = openEast g p"
    by (auto simp: set_eastPairs openEast_def fl)
  show "wallsSymmetric n g'" if "wallsSymmetric n g"
    using that ab by (auto simp: wallsSymmetric_def set_eastPairs set_southPairs fl)
qed

subsection \<open>The carving loop\<close>

text \<open>
  \<^verbatim>\<open>nextInt(max)\<close> is below \<open>max\<close>, so the index into the list of unvisited neighbours
  is in range; and it is the integer quotient \<open>(w * max) div 2^32\<close> of the 32-bit output.
\<close>

lemma nextInt_less:
  assumes "0 < mx"
  shows "fst (nextInt mx s) < mx"
proof -
  define u where "u = fst (rng_next s)"
  have u: "0 \<le> u" "u < 1"
    using rng_next_range [of s] by (simp_all add: u_def)
  then have "u * real mx < real mx"
    using assms by simp
  then have "\<lfloor>u * real mx\<rfloor> < int mx"
    by (simp add: floor_less_iff)
  moreover have "0 \<le> \<lfloor>u * real mx\<rfloor>"
    using u by simp
  ultimately have "nat \<lfloor>u * real mx\<rfloor> < mx"
    by linarith
  then show ?thesis
    by (simp add: nextInt_def u_def split_beta)
qed

lemma nextInt_code:
  "nextInt mx s = ((unat (rng_mix (s + 0x6d2b79f5)) * mx) div 4294967296, s + 0x6d2b79f5)"
proof -
  define k where "k = unat (rng_mix (s + 0x6d2b79f5))"
  have "real k / 4294967296 * real mx = real (k * mx) / real 4294967296"
    by simp
  then have "\<lfloor>real k / 4294967296 * real mx\<rfloor> = int ((k * mx) div 4294967296)"
    by (simp only: floor_divide_of_nat_eq)
  then show ?thesis
    by (simp add: nextInt_def rng_next_def Let_def k_def)
qed

lemma eastOpened_unchanged:
  assumes "eastOpened n g g' a" "p \<in> gridCells n" "p \<noteq> a" "p \<noteq> (fst a + 1, snd a)"
  shows "wallsAt g' p = wallsAt g p"
  using assms unfolding eastOpened_def by auto

lemma southOpened_unchanged:
  assumes "southOpened n g g' a" "p \<in> gridCells n" "p \<noteq> a" "p \<noteq> (fst a, snd a + 1)"
  shows "wallsAt g' p = wallsAt g p"
  using assms unfolding southOpened_def by auto

lemma openPairs_east:
  assumes eo: "eastOpened n g g' a" and a: "a \<in> set (eastPairs n)" and cl: "\<not> openEast g a"
  shows "openPairs n g' = Suc (openPairs n g)"
proof -
  have "length (filter (openEast g') (eastPairs n)) = Suc (length (filter (openEast g) (eastPairs n)))"
    using distinct_eastPairs a cl eastOpened_effects(1) [OF eo a]
    by (rule length_filter_one_more)
  moreover have "filter (openSouth g') (southPairs n) = filter (openSouth g) (southPairs n)"
    using eastOpened_effects(2) [OF eo a] by (intro filter_cong) simp_all
  ultimately show ?thesis
    by (simp add: openPairs_def)
qed

lemma openPairs_south:
  assumes eo: "southOpened n g g' a" and a: "a \<in> set (southPairs n)" and cl: "\<not> openSouth g a"
  shows "openPairs n g' = Suc (openPairs n g)"
proof -
  have "length (filter (openSouth g') (southPairs n)) = Suc (length (filter (openSouth g) (southPairs n)))"
    using distinct_southPairs a cl southOpened_effects(1) [OF eo a]
    by (rule length_filter_one_more)
  moreover have "filter (openEast g') (eastPairs n) = filter (openEast g) (eastPairs n)"
    using southOpened_effects(2) [OF eo a] by (intro filter_cong) simp_all
  ultimately show ?thesis
    by (simp add: openPairs_def)
qed

lemma removeWall_step:
  assumes sh: "gridShape n g" and sy: "wallsSymmetric n g"
    and c: "cur \<in> gridCells n" and nb: "nxt \<in> set (getNeighbors n cur)"
    and cl: "wallsAt g nxt = \<lparr>north = True, east = True, south = True, west = True\<rparr>"
  shows "gridShape n (removeWall g cur nxt)"
    and "wallsSymmetric n (removeWall g cur nxt)"
    and "nxt \<in> gridCells n"
    and "openPairs n (removeWall g cur nxt) = Suc (openPairs n g)"
    and "\<And>p. reachable n g p \<Longrightarrow> reachable n (removeWall g cur nxt) p"
    and "reachable n (removeWall g cur nxt) cur \<Longrightarrow> reachable n (removeWall g cur nxt) nxt"
    and "\<And>p. p \<in> gridCells n \<Longrightarrow> p \<noteq> cur \<Longrightarrow> p \<noteq> nxt
           \<Longrightarrow> wallsAt (removeWall g cur nxt) p = wallsAt g p"
proof -
  define g' where "g' = removeWall g cur nxt"
  from removeWall_cases [OF sh c nb] have ng: "nxt \<in> gridCells n"
    and cases: "(\<exists>a \<in> set (eastPairs n). {cur, nxt} = {a, (fst a + 1, snd a)} \<and> eastOpened n g g' a)
        \<or> (\<exists>a \<in> set (southPairs n). {cur, nxt} = {a, (fst a, snd a + 1)} \<and> southOpened n g g' a)"
    by (simp_all add: g'_def)
  have "gridShape n g' \<and> wallsSymmetric n g' \<and> openPairs n g' = Suc (openPairs n g)
      \<and> (\<forall>p. reachable n g p \<longrightarrow> reachable n g' p)
      \<and> (reachable n g' cur \<longrightarrow> reachable n g' nxt)
      \<and> (\<forall>p \<in> gridCells n. p \<noteq> cur \<longrightarrow> p \<noteq> nxt \<longrightarrow> wallsAt g' p = wallsAt g p)"
    using cases
  proof
    assume "\<exists>a \<in> set (eastPairs n). {cur, nxt} = {a, (fst a + 1, snd a)} \<and> eastOpened n g g' a"
    then obtain a where a: "a \<in> set (eastPairs n)" and cn: "{cur, nxt} = {a, (fst a + 1, snd a)}"
      and eo: "eastOpened n g g' a"
      by blast
    from a have ab: "fst a + 1 < n" "snd a < n" by (simp_all add: set_eastPairs)
    have nn: "nxt = a \<or> nxt = (fst a + 1, snd a)" using cn by (auto simp: doubleton_eq_iff)
    have ncl: "\<not> openEast g a"
      using nn cl by (auto simp: openEast_def)
    have 1: "gridShape n g'" using eo by (simp add: eastOpened_def)
    have 2: "wallsSymmetric n g'" using eastOpened_effects(3) [OF eo a sy] .
    have 3: "openPairs n g' = Suc (openPairs n g)" using eo a ncl by (rule openPairs_east)
    have 4: "reachable n g' p" if "reachable n g p" for p
      using that by (rule reachable_mono) (use eastOpened_effects(1,2) [OF eo a] in auto)
    have oa: "openEast g' a" using eastOpened_effects(1) [OF eo a] a by simp
    have 5: "reachable n g' nxt" if r: "reachable n g' cur"
    proof -
      from cn have "(cur = a \<and> nxt = (fst a + 1, snd a)) \<or> (cur = (fst a + 1, snd a) \<and> nxt = a)"
        by (auto simp: doubleton_eq_iff)
      then show ?thesis
      proof
        assume h: "cur = a \<and> nxt = (fst a + 1, snd a)"
        with r have "reachable n g' (fst a, snd a)" by simp
        from reachable.goEast [OF this ab] oa h show ?thesis by simp
      next
        assume h: "cur = (fst a + 1, snd a) \<and> nxt = a"
        with r have "reachable n g' (fst a + 1, snd a)" by simp
        from reachable.goWest [OF this ab] oa h show ?thesis by simp
      qed
    qed
    have 6: "wallsAt g' p = wallsAt g p" if "p \<in> gridCells n" "p \<noteq> cur" "p \<noteq> nxt" for p
    proof -
      from cn that have "p \<noteq> a" "p \<noteq> (fst a + 1, snd a)" by auto
      with eo that(1) show ?thesis by (intro eastOpened_unchanged)
    qed
    from 1 2 3 4 5 6 show ?thesis by blast
  next
    assume "\<exists>a \<in> set (southPairs n). {cur, nxt} = {a, (fst a, snd a + 1)} \<and> southOpened n g g' a"
    then obtain a where a: "a \<in> set (southPairs n)" and cn: "{cur, nxt} = {a, (fst a, snd a + 1)}"
      and eo: "southOpened n g g' a"
      by blast
    from a have ab: "fst a < n" "snd a + 1 < n" by (simp_all add: set_southPairs)
    have nn: "nxt = a \<or> nxt = (fst a, snd a + 1)" using cn by (auto simp: doubleton_eq_iff)
    have ncl: "\<not> openSouth g a"
      using nn cl by (auto simp: openSouth_def)
    have 1: "gridShape n g'" using eo by (simp add: southOpened_def)
    have 2: "wallsSymmetric n g'" using southOpened_effects(3) [OF eo a sy] .
    have 3: "openPairs n g' = Suc (openPairs n g)" using eo a ncl by (rule openPairs_south)
    have 4: "reachable n g' p" if "reachable n g p" for p
      using that by (rule reachable_mono) (use southOpened_effects(1,2) [OF eo a] in auto)
    have oa: "openSouth g' a" using southOpened_effects(1) [OF eo a] a by simp
    have 5: "reachable n g' nxt" if r: "reachable n g' cur"
    proof -
      from cn have "(cur = a \<and> nxt = (fst a, snd a + 1)) \<or> (cur = (fst a, snd a + 1) \<and> nxt = a)"
        by (auto simp: doubleton_eq_iff)
      then show ?thesis
      proof
        assume h: "cur = a \<and> nxt = (fst a, snd a + 1)"
        with r have "reachable n g' (fst a, snd a)" by simp
        from reachable.goSouth [OF this ab] oa h show ?thesis by simp
      next
        assume h: "cur = (fst a, snd a + 1) \<and> nxt = a"
        with r have "reachable n g' (fst a, snd a + 1)" by simp
        from reachable.goNorth [OF this ab] oa h show ?thesis by simp
      qed
    qed
    have 6: "wallsAt g' p = wallsAt g p" if "p \<in> gridCells n" "p \<noteq> cur" "p \<noteq> nxt" for p
    proof -
      from cn that have "p \<noteq> a" "p \<noteq> (fst a, snd a + 1)" by auto
      with eo that(1) show ?thesis by (intro southOpened_unchanged)
    qed
    from 1 2 3 4 5 6 show ?thesis by blast
  qed
  then show "gridShape n (removeWall g cur nxt)"
    and "wallsSymmetric n (removeWall g cur nxt)"
    and "openPairs n (removeWall g cur nxt) = Suc (openPairs n g)"
    and "\<And>p. reachable n g p \<Longrightarrow> reachable n (removeWall g cur nxt) p"
    and "reachable n (removeWall g cur nxt) cur \<Longrightarrow> reachable n (removeWall g cur nxt) nxt"
    and "\<And>p. p \<in> gridCells n \<Longrightarrow> p \<noteq> cur \<Longrightarrow> p \<noteq> nxt
           \<Longrightarrow> wallsAt (removeWall g cur nxt) p = wallsAt g p"
    unfolding g'_def by blast+
  show "nxt \<in> gridCells n" by (rule ng)
qed

lemma getNeighbors_in_grid:
  "p \<in> gridCells n \<Longrightarrow> q \<in> set (getNeighbors n p) \<Longrightarrow> q \<in> gridCells n"
  by (cases p) (auto simp: getNeighbors_def gridCells_iff split: if_splits)

lemma carveInv_push:
  assumes inv: "carveInv n g stack visited" and ne: "stack \<noteq> []"
    and nb: "nxt \<in> set (getNeighbors n (last stack))" and nv: "nxt \<notin> visited"
  shows "carveInv n (removeWall g (last stack) nxt) (stack @ [nxt]) (insert nxt visited)"
proof -
  define cur where "cur = last stack"
  from inv have sh: "gridShape n g" and sy: "wallsSymmetric n g"
    and vg: "visited \<subseteq> gridCells n" and z: "(0, 0) \<in> visited" and sv: "set stack \<subseteq> visited"
    and re: "\<forall>p \<in> visited. reachable n g p"
    and cnt: "openPairs n g + 1 = card visited"
    and cl: "\<forall>p \<in> gridCells n - visited.
            wallsAt g p = \<lparr>north = True, east = True, south = True, west = True\<rparr>"
    and dn: "\<forall>p \<in> visited - set stack. set (getNeighbors n p) \<subseteq> visited"
    by (simp_all add: carveInv_def)
  from ne sv have cv: "cur \<in> visited" by (auto simp: cur_def)
  with vg have cg: "cur \<in> gridCells n" by blast
  from nb have nb': "nxt \<in> set (getNeighbors n cur)" by (simp add: cur_def)
  from cg nb' have ng: "nxt \<in> gridCells n" by (rule getNeighbors_in_grid)
  with nv cl have ncl: "wallsAt g nxt = \<lparr>north = True, east = True, south = True, west = True\<rparr>"
    by simp
  note st = removeWall_step [OF sh sy cg nb' ncl]
  have fin: "finite visited" using vg finite_gridCells by (rule finite_subset)
  have 1: "\<forall>p \<in> insert nxt visited. reachable n (removeWall g cur nxt) p"
    using re cv st(5,6) by auto
  have 2: "openPairs n (removeWall g cur nxt) + 1 = card (insert nxt visited)"
    using st(4) cnt fin nv by simp
  have 3: "\<forall>p \<in> gridCells n - insert nxt visited.
            wallsAt (removeWall g cur nxt) p = \<lparr>north = True, east = True, south = True, west = True\<rparr>"
  proof
    fix p assume p: "p \<in> gridCells n - insert nxt visited"
    with cv have "p \<in> gridCells n" "p \<noteq> cur" "p \<noteq> nxt" by auto
    then have "wallsAt (removeWall g cur nxt) p = wallsAt g p" by (rule st(7))
    with cl p show "wallsAt (removeWall g cur nxt) p
        = \<lparr>north = True, east = True, south = True, west = True\<rparr>"
      by simp
  qed
  have 4: "\<forall>p \<in> insert nxt visited - set (stack @ [nxt]). set (getNeighbors n p) \<subseteq> insert nxt visited"
    using dn by auto
  show ?thesis
    unfolding carveInv_def cur_def [symmetric]
    using st(1,2) vg ng z sv 1 2 3 4 by auto
qed

lemma carveInv_pop:
  assumes inv: "carveInv n g stack visited" and ne: "stack \<noteq> []"
    and nb: "filter (\<lambda>c. c \<notin> visited) (getNeighbors n (last stack)) = []"
  shows "carveInv n g (butlast stack) visited"
proof -
  from inv have sv: "set stack \<subseteq> visited"
    and dn: "\<forall>p \<in> visited - set stack. set (getNeighbors n p) \<subseteq> visited"
    by (simp_all add: carveInv_def)
  have sb: "set (butlast stack) \<subseteq> set stack"
    by (auto dest: in_set_butlastD)
  from nb have ln: "set (getNeighbors n (last stack)) \<subseteq> visited"
    by (auto simp: filter_empty_conv)
  have "set stack \<subseteq> insert (last stack) (set (butlast stack))"
    using ne by (metis append_butlast_last_id insert_is_Un list.simps(15) set_append
        subset_refl sup_commute empty_set)
  then have 4: "\<forall>p \<in> visited - set (butlast stack). set (getNeighbors n p) \<subseteq> visited"
    using dn ln by blast
  from inv sb 4 show ?thesis
    unfolding carveInv_def by blast
qed

lemma carveInv_init:
  assumes "0 < n"
  shows "carveInv n (initCells n) [(0, 0)] {(0, 0)}"
proof -
  have z: "(0, 0) \<in> gridCells n" using assms by (simp add: gridCells_iff)
  have w: "\<And>p. p \<in> gridCells n \<Longrightarrow>
      wallsAt (initCells n) p = \<lparr>north = True, east = True, south = True, west = True\<rparr>"
    by (rule wallsAt_initCells)
  have ge: "\<And>p. p \<in> set (eastPairs n) \<Longrightarrow> p \<in> gridCells n \<and> (fst p + 1, snd p) \<in> gridCells n"
    by (simp add: set_eastPairs gridCells_iff)
  have gs: "\<And>p. p \<in> set (southPairs n) \<Longrightarrow> p \<in> gridCells n \<and> (fst p, snd p + 1) \<in> gridCells n"
    by (simp add: set_southPairs gridCells_iff)
  have sy: "wallsSymmetric n (initCells n)"
    unfolding wallsSymmetric_def using ge gs by (simp add: w)
  have "filter (openEast (initCells n)) (eastPairs n) = []"
    unfolding filter_empty_conv using ge by (simp add: openEast_def w)
  moreover have "filter (openSouth (initCells n)) (southPairs n) = []"
    unfolding filter_empty_conv using gs by (simp add: openSouth_def w)
  ultimately have op: "openPairs n (initCells n) = 0"
    by (simp add: openPairs_def)
  show ?thesis
    unfolding carveInv_def
    using z sy op w assms by (auto simp: gridShape_initCells intro: reachable.start)
qed

lemma neighbors_closed_all:
  assumes z: "(0, 0) \<in> S" and cl: "\<forall>p \<in> S. set (getNeighbors n p) \<subseteq> S"
  shows "gridCells n \<subseteq> S"
proof
  fix p assume "p \<in> gridCells n"
  then obtain x y where p: "p = (x, y)" and b: "x < n" "y < n"
    by (cases p) (simp add: gridCells_iff)
  have row: "x < n \<Longrightarrow> (x, 0) \<in> S" for x
  proof (induction x)
    case 0
    show ?case by (rule z)
  next
    case (Suc x)
    then have "(x, 0) \<in> S" by simp
    moreover have "x < n - 1" using Suc.prems by linarith
    then have "(Suc x, 0) \<in> set (getNeighbors n (x, 0))"
      by (simp add: getNeighbors_def)
    ultimately show ?case using cl by blast
  qed
  have col: "y < n \<Longrightarrow> (x, y) \<in> S" for y
  proof (induction y)
    case 0
    show ?case using b(1) by (rule row)
  next
    case (Suc y)
    then have "(x, y) \<in> S" by simp
    moreover have "y < n - 1" using Suc.prems by linarith
    then have "(x, Suc y) \<in> set (getNeighbors n (x, y))"
      by (simp add: getNeighbors_def)
    ultimately show ?case using cl by blast
  qed
  from col [OF b(2)] p show "p \<in> S" by simp
qed

lemma carveInv_final:
  assumes "carveInv n g [] visited"
  shows "visited = gridCells n"
proof -
  from assms have "gridCells n \<subseteq> visited"
    by (intro neighbors_closed_all) (simp_all add: carveInv_def)
  moreover from assms have "visited \<subseteq> gridCells n"
    by (simp add: carveInv_def)
  ultimately show ?thesis by blast
qed

text \<open>
  The carving loop ends, and it ends in a state that satisfies the invariant with every
  cell visited. The measure is twice the number of unvisited cells plus the height of the
  stack: a push visits a new cell, a pop shortens the stack.
\<close>

lemma carve_total:
  assumes "carveInv n g stack visited"
  shows "\<exists>g' rng'. carve n g stack visited rng = Some (g', rng') \<and> carveInv n g' [] (gridCells n)"
  using assms
proof (induction "2 * (n * n - card visited) + length stack"
    arbitrary: g stack visited rng rule: less_induct)
  case less
  note inv = less.prems
  show ?case
  proof (cases "stack = []")
    case True
    with inv carveInv_final [of n g visited] show ?thesis
      by (subst carve.simps) simp
  next
    case ne: False
    define neighbors where "neighbors = filter (\<lambda>c. c \<notin> visited) (getNeighbors n (last stack))"
    show ?thesis
    proof (cases "neighbors = []")
      case True
      then have inv': "carveInv n g (butlast stack) visited"
        using inv ne unfolding neighbors_def by (intro carveInv_pop)
      have "2 * (n * n - card visited) + length (butlast stack)
          < 2 * (n * n - card visited) + length stack"
        using ne by simp
      from less.hyps [OF this inv', of rng] obtain g' rng' where
        "carve n g (butlast stack) visited rng = Some (g', rng')" "carveInv n g' [] (gridCells n)"
        by blast
      then show ?thesis
        using ne True by (subst carve.simps) (simp add: neighbors_def [symmetric])
    next
      case False
      define i where "i = fst (nextInt (length neighbors) rng)"
      define rng1 where "rng1 = snd (nextInt (length neighbors) rng)"
      define nxt where "nxt = neighbors ! i"
      have il: "i < length neighbors"
        unfolding i_def using False by (intro nextInt_less) simp
      then have "nxt \<in> set neighbors" by (simp add: nxt_def)
      then have nb: "nxt \<in> set (getNeighbors n (last stack))" and nv: "nxt \<notin> visited"
        by (simp_all add: neighbors_def)
      have inv': "carveInv n (removeWall g (last stack) nxt) (stack @ [nxt]) (insert nxt visited)"
        using inv ne nb nv by (rule carveInv_push)
      from inv have vg: "visited \<subseteq> gridCells n" by (simp add: carveInv_def)
      then have fin: "finite visited" using finite_gridCells by (rule finite_subset)
      from inv' have "insert nxt visited \<subseteq> gridCells n" by (simp add: carveInv_def)
      then have "card (insert nxt visited) \<le> n * n"
        using card_mono [OF finite_gridCells, of "insert nxt visited" n] by (simp add: card_gridCells)
      then have lt: "card visited < n * n"
        using fin nv by simp
      have "2 * (n * n - card (insert nxt visited)) + length (stack @ [nxt])
          < 2 * (n * n - card visited) + length stack"
        using fin nv lt by simp
      from less.hyps [OF this inv', of rng1] obtain g' rng' where
        "carve n (removeWall g (last stack) nxt) (stack @ [nxt]) (insert nxt visited) rng1
           = Some (g', rng')" "carveInv n g' [] (gridCells n)"
        by blast
      then show ?thesis
        using ne False
        by (subst carve.simps)
          (simp add: neighbors_def [symmetric] Let_def split_beta i_def [symmetric]
            rng1_def [symmetric] nxt_def [symmetric])
    qed
  qed
qed

subsection \<open>The hole loop\<close>

lemma hasAdjacentHole_iff:
  "hasAdjacentHole g x y hs
     \<longleftrightarrow> (\<exists>h \<in> set hs. isAdjacentWithoutWall g x y (hole_x h) (hole_y h))"
  by (induction hs) auto

lemma placedApart_snoc:
  assumes "placedApart g ps"
    and "\<forall>q \<in> set ps. \<not> isAdjacentWithoutWall g (fst p) (snd p) (fst q) (snd q)"
  shows "placedApart g (ps @ [p])"
  unfolding placedApart_def
proof (intro allI impI)
  fix j i assume j: "j < length (ps @ [p])" and i: "i < j"
  show "\<not> isAdjacentWithoutWall g (fst ((ps @ [p]) ! j)) (snd ((ps @ [p]) ! j))
          (fst ((ps @ [p]) ! i)) (snd ((ps @ [p]) ! i))"
  proof (cases "j < length ps")
    case True
    with i assms(1) show ?thesis
      by (simp add: placedApart_def nth_append)
  next
    case False
    with j have jl: "j = length ps" by simp
    with i have "ps ! i \<in> set ps" by simp
    with assms(2) jl i show ?thesis
      by (simp add: nth_append)
  qed
qed

lemma holesInv_add:
  assumes inv: "holesInv n g hs used" and n: "0 < n"
    and x: "x < n" and y: "y < n" and nu: "(x, y) \<notin> used"
    and na: "\<not> hasAdjacentHole g x y hs"
    and h: "h = \<lparr>hole_x = x, hole_y = y, offsetX = Some (fst (nextFloat (- 0.3) 0.3 rng)),
              offsetY = Some (fst (nextFloat (- 0.3) 0.3 (snd (nextFloat (- 0.3) 0.3 rng))))\<rparr>"
  shows "holesInv n g (hs @ [h]) (insert (x, y) used)"
proof -
  from inv have u: "used = corners n \<union> set (map holePos hs)"
    and d: "distinct (map holePos hs)"
    and s: "set (map holePos hs) \<subseteq> gridCells n - corners n"
    and pa: "placedApart g (map holePos hs)"
    and od: "list_all offsetsDrawn hs"
    by (simp_all add: holesInv_def validPlacement_def)
  have hp: "holePos h = (x, y)" by (simp add: h holePos_def)
  have 1: "insert (x, y) used = corners n \<union> set (map holePos (hs @ [h]))"
    using u hp by auto
  have 2: "distinct (map holePos (hs @ [h]))"
    using d nu u hp by auto
  have 3: "set (map holePos (hs @ [h])) \<subseteq> gridCells n - corners n"
    using s nu u hp x y by (auto simp: gridCells_iff)
  have "\<forall>q \<in> set (map holePos hs).
      \<not> isAdjacentWithoutWall g (fst (holePos h)) (snd (holePos h)) (fst q) (snd q)"
    using na by (auto simp: hasAdjacentHole_iff h holePos_def)
  then have 4: "placedApart g (map holePos (hs @ [h]))"
    using pa by (simp add: placedApart_snoc)
  have "offsetsDrawn h"
    unfolding offsetsDrawn_def h by auto
  then have 5: "list_all offsetsDrawn (hs @ [h])"
    using od by simp
  from 1 2 3 4 5 show ?thesis
    unfolding holesInv_def validPlacement_def by blast
qed

lemmas placeHoles_induct = placeHoles.raw_induct [rotated 1, consumes 1, case_names step]

text \<open>If the hole loop returns, it returns a valid placement of exactly \<open>holeCount\<close> holes.\<close>

lemma placeHoles_result:
  assumes "placeHoles n holeCount g hs used rng = Some res"
  shows "0 < n \<Longrightarrow> holesInv n g hs used \<Longrightarrow> length hs \<le> holeCount
         \<Longrightarrow> holesInv n g (fst res) (corners n \<union> set (map holePos (fst res)))
             \<and> length (fst res) = holeCount"
  using assms
proof (induction n holeCount g hs used rng res rule: placeHoles_induct)
  case (step placeHoles n holeCount g hs used rng res)
  note IH = step.IH and body = step.hyps and n = step.prems(1) and inv = step.prems(2)
    and len = step.prems(3)
  show ?case
  proof (cases "length hs < holeCount")
    case False
    with body have "res = (hs, rng)" by simp
    moreover from inv have "used = corners n \<union> set (map holePos hs)"
      by (simp add: holesInv_def)
    ultimately show ?thesis
      using inv len False by simp
  next
    case True
    define x where "x = fst (nextInt n rng)"
    define rng1 where "rng1 = snd (nextInt n rng)"
    define y where "y = fst (nextInt n rng1)"
    define rng2 where "rng2 = snd (nextInt n rng1)"
    have xy: "x < n" "y < n"
      unfolding x_def y_def using n by (simp_all add: nextInt_less)
    show ?thesis
    proof (cases "(x, y) \<in> used \<or> hasAdjacentHole g x y hs")
      case rej: True
      with body True have "placeHoles n holeCount g hs used rng2 = Some res"
        by (auto simp: split_beta x_def [symmetric] y_def [symmetric] rng1_def [symmetric]
            rng2_def [symmetric] split: if_splits)
      from IH [OF this n inv len] show ?thesis .
    next
      case acc: False
      define h where "h = \<lparr>hole_x = x, hole_y = y,
          offsetX = Some (fst (nextFloat (- 0.3) 0.3 rng2)),
          offsetY = Some (fst (nextFloat (- 0.3) 0.3 (snd (nextFloat (- 0.3) 0.3 rng2))))\<rparr>"
      from acc body True have call: "placeHoles n holeCount g (hs @ [h]) (insert (x, y) used)
          (snd (nextFloat (- 0.3) 0.3 (snd (nextFloat (- 0.3) 0.3 rng2)))) = Some res"
        by (simp add: split_beta x_def [symmetric] y_def [symmetric] rng1_def [symmetric]
            rng2_def [symmetric] h_def)
      have inv': "holesInv n g (hs @ [h]) (insert (x, y) used)"
        using inv n xy acc h_def by (intro holesInv_add [where rng = rng2]) simp_all
      have len': "length (hs @ [h]) \<le> holeCount" using True by simp
      from IH [OF call n inv' len'] show ?thesis .
    qed
  qed
qed

lemma manhattan_one_cases:
  assumes "manhattan p q = 1"
  shows "(fst q = fst p + 1 \<and> snd q = snd p) \<or> (fst p = fst q + 1 \<and> snd q = snd p)
       \<or> (snd q = snd p + 1 \<and> fst q = fst p) \<or> (snd p = snd q + 1 \<and> fst q = fst p)"
  using assms unfolding manhattan_def by (cases p, cases q) (simp, linarith)

lemma isAdjacent_wallToward:
  assumes "manhattan p q = 1"
  shows "isAdjacentWithoutWall g (fst p) (snd p) (fst q) (snd q) = (\<not> wallToward g p q)"
  using manhattan_one_cases [OF assms]
  by (auto simp: isAdjacentWithoutWall_def wallToward_def wallsAt_def Let_def)

lemma isAdjacent_manhattan:
  "isAdjacentWithoutWall g x1 y1 x2 y2 \<Longrightarrow> manhattan (x1, y1) (x2, y2) = 1"
  by (auto simp: isAdjacentWithoutWall_def manhattan_def Let_def split: if_splits)

lemma wallToward_sym:
  assumes sy: "wallsSymmetric n g" and p: "p \<in> gridCells n" and q: "q \<in> gridCells n"
    and m: "manhattan p q = 1"
  shows "wallToward g p q = wallToward g q p"
proof -
  obtain px py where p': "p = (px, py)" by (cases p)
  obtain qx qy where q': "q = (qx, qy)" by (cases q)
  from p q p' q' have b: "px < n" "py < n" "qx < n" "qy < n" by (simp_all add: gridCells_iff)
  from sy have e: "\<And>x y. x + 1 < n \<Longrightarrow> y < n \<Longrightarrow>
      east (wallsAt g (x, y)) = west (wallsAt g (x + 1, y))"
    and s: "\<And>x y. x < n \<Longrightarrow> y + 1 < n \<Longrightarrow>
      south (wallsAt g (x, y)) = north (wallsAt g (x, y + 1))"
    by (simp_all add: wallsSymmetric_def set_eastPairs set_southPairs)
  from manhattan_one_cases [OF m] show ?thesis
    using b e [of px py] e [of qx qy] s [of px py] s [of qx qy]
    by (auto simp: wallToward_def p' q')
qed

lemma carveMaze_total:
  assumes "0 < n"
  shows "\<exists>g rng. carveMaze seed n = Some (g, rng) \<and> carveInv n g [] (gridCells n)"
  unfolding carveMaze_def using carve_total [OF carveInv_init [OF assms]] by blast

lemma generateMaze_Inr:
  assumes "generateMaze seed n holeCount = Some (Inr m)"
  shows "0 < n \<and> maze_size m = n
     \<and> goal m = \<lparr>hole_x = n - 1, hole_y = n - 1, offsetX = None, offsetY = None\<rparr>
     \<and> (\<exists>rng rng'. carveMaze seed n = Some (cells m, rng)
          \<and> placeHoles n holeCount (cells m) [] {(0, 0), (n - 1, n - 1)} rng
              = Some (holes m, rng'))"
  using assms
  by (auto simp: generateMaze_def split: if_splits option.splits prod.splits)

lemma holesInv_init: "holesInv n g [] {(0, 0), (n - 1, n - 1)}"
  by (simp add: holesInv_def validPlacement_def placedApart_def corners_def)

lemma generateMaze_placement:
  assumes "generateMaze seed n holeCount = Some (Inr m)"
  shows "validPlacement n (cells m) (map holePos (holes m)) \<and> length (holes m) = holeCount
     \<and> list_all offsetsDrawn (holes m) \<and> carveInv n (cells m) [] (gridCells n)"
proof -
  from generateMaze_Inr [OF assms] obtain rng rng' where n: "0 < n"
    and c: "carveMaze seed n = Some (cells m, rng)"
    and p: "placeHoles n holeCount (cells m) [] {(0, 0), (n - 1, n - 1)} rng = Some (holes m, rng')"
    by blast
  from placeHoles_result [OF p n holesInv_init] have
    "holesInv n (cells m) (holes m) (corners n \<union> set (map holePos (holes m)))"
    "length (holes m) = holeCount"
    by simp_all
  moreover from carveMaze_total [OF n, of seed] c have "carveInv n (cells m) [] (gridCells n)"
    by auto
  ultimately show ?thesis
    by (simp add: holesInv_def)
qed

lemma spanning_from_inv:
  assumes inv: "carveInv n g [] (gridCells n)"
  shows "{p. reachable n g p} = gridCells n" "openPairs n g = n * n - 1"
proof -
  from inv have "\<forall>p \<in> gridCells n. reachable n g p" by (simp add: carveInv_def)
  then show "{p. reachable n g p} = gridCells n"
    using reachable_in_grid [of n g] by auto
  from inv have "openPairs n g + 1 = card (gridCells n)" by (simp add: carveInv_def)
  then show "openPairs n g = n * n - 1" by (simp add: card_gridCells)
qed

lemma card_placeable: 
  assumes "0 < n"
  shows "card (gridCells n - corners n) = n * n - 2"
proof (cases "n = 1")
  case True
  then show ?thesis by (simp add: gridCells_def corners_def)
next
  case False
  with assms have n2: "2 \<le> n" by simp
  then have ne: "(0, 0) \<noteq> (n - 1, n - 1)" by simp
  have sub: "corners n \<subseteq> gridCells n"
    using assms by (simp add: corners_def gridCells_iff)
  have "card (corners n) = 2" using ne by (simp add: corners_def)
  with sub show ?thesis
    by (simp add: card_Diff_subset card_gridCells corners_def)
qed

lemma validPlacement_length:
  assumes "validPlacement n g ps" "0 < n"
  shows "length ps \<le> n * n - 2"
proof -
  from assms(1) have d: "distinct ps" and s: "set ps \<subseteq> gridCells n - corners n"
    by (simp_all add: validPlacement_def)
  have "finite (gridCells n - corners n)"
    using finite_gridCells [of n] by simp
  then have "card (set ps) \<le> card (gridCells n - corners n)"
    using s by (intro card_mono)
  moreover have "length ps = card (set ps)"
    using d by (simp add: distinct_card)
  ultimately show ?thesis
    using card_placeable [OF assms(2)] by simp
qed

subsection \<open>The run for seed 0 and size 3\<close>

text \<open>
  The carving loop unrolled, one lemma per iteration: eight iterations that push a cell
  and open a wall pair, nine that pop. The choices do not depend on the grid, so the
  iterations are stated for any grid. The hole loop then accepts its first two draws.
\<close>

lemma seedZero_carve: "carve 3 g [(0, 0)] {(0, 0)} 0 = Some (removeWall (removeWall (removeWall (removeWall (removeWall (removeWall (removeWall (removeWall (g) (0, 0) (1, 0)) (1, 0) (2, 0)) (2, 0) (2, 1)) (2, 1) (2, 2)) (2, 2) (1, 2)) (1, 2) (0, 2)) (0, 2) (0, 1)) (0, 1) (1, 1), 1767624616)"
proof -
  have two: "Suc (Suc 0) = 2"
    by simp
  have c0: "carve 3 g [(0, 0)] ({(0, 0)}) 0 = carve 3 (removeWall g (0, 0) (1, 0)) [(0, 0), (1, 0)] (insert (1, 0) {(0, 0)}) 1831565813" for g
    by (subst carve.simps) (simp add: getNeighbors_def nextInt_code rng_mix_def Let_def; (simp only: two)?)
  have c1: "carve 3 g [(0, 0), (1, 0)] (insert (1, 0) {(0, 0)}) 1831565813 = carve 3 (removeWall g (1, 0) (2, 0)) [(0, 0), (1, 0), (2, 0)] (insert (2, 0) (insert (1, 0) {(0, 0)})) 3663131626" for g
    by (subst carve.simps) (simp add: getNeighbors_def nextInt_code rng_mix_def Let_def; (simp only: two)?)
  have w2: "(5494697439 :: u32) = 1199730143"
    by simp
  have c2: "carve 3 g [(0, 0), (1, 0), (2, 0)] (insert (2, 0) (insert (1, 0) {(0, 0)})) 3663131626 = carve 3 (removeWall g (2, 0) (2, 1)) [(0, 0), (1, 0), (2, 0), (2, 1)] (insert (2, 1) (insert (2, 0) (insert (1, 0) {(0, 0)}))) 1199730143" for g
    by (subst carve.simps) (simp add: getNeighbors_def nextInt_code rng_mix_def Let_def w2; (simp only: two)?)
  have c3: "carve 3 g [(0, 0), (1, 0), (2, 0), (2, 1)] (insert (2, 1) (insert (2, 0) (insert (1, 0) {(0, 0)}))) 1199730143 = carve 3 (removeWall g (2, 1) (2, 2)) [(0, 0), (1, 0), (2, 0), (2, 1), (2, 2)] (insert (2, 2) (insert (2, 1) (insert (2, 0) (insert (1, 0) {(0, 0)})))) 3031295956" for g
    by (subst carve.simps) (simp add: getNeighbors_def nextInt_code rng_mix_def Let_def; (simp only: two)?)
  have w4: "(4862861769 :: u32) = 567894473"
    by simp
  have c4: "carve 3 g [(0, 0), (1, 0), (2, 0), (2, 1), (2, 2)] (insert (2, 2) (insert (2, 1) (insert (2, 0) (insert (1, 0) {(0, 0)})))) 3031295956 = carve 3 (removeWall g (2, 2) (1, 2)) [(0, 0), (1, 0), (2, 0), (2, 1), (2, 2), (1, 2)] (insert (1, 2) (insert (2, 2) (insert (2, 1) (insert (2, 0) (insert (1, 0) {(0, 0)}))))) 567894473" for g
    by (subst carve.simps) (simp add: getNeighbors_def nextInt_code rng_mix_def Let_def w4; (simp only: two)?)
  have c5: "carve 3 g [(0, 0), (1, 0), (2, 0), (2, 1), (2, 2), (1, 2)] (insert (1, 2) (insert (2, 2) (insert (2, 1) (insert (2, 0) (insert (1, 0) {(0, 0)}))))) 567894473 = carve 3 (removeWall g (1, 2) (0, 2)) [(0, 0), (1, 0), (2, 0), (2, 1), (2, 2), (1, 2), (0, 2)] (insert (0, 2) (insert (1, 2) (insert (2, 2) (insert (2, 1) (insert (2, 0) (insert (1, 0) {(0, 0)})))))) 2399460286" for g
    by (subst carve.simps) (simp add: getNeighbors_def nextInt_code rng_mix_def Let_def; (simp only: two)?)
  have c6: "carve 3 g [(0, 0), (1, 0), (2, 0), (2, 1), (2, 2), (1, 2), (0, 2)] (insert (0, 2) (insert (1, 2) (insert (2, 2) (insert (2, 1) (insert (2, 0) (insert (1, 0) {(0, 0)})))))) 2399460286 = carve 3 (removeWall g (0, 2) (0, 1)) [(0, 0), (1, 0), (2, 0), (2, 1), (2, 2), (1, 2), (0, 2), (0, 1)] (insert (0, 1) (insert (0, 2) (insert (1, 2) (insert (2, 2) (insert (2, 1) (insert (2, 0) (insert (1, 0) {(0, 0)}))))))) 4231026099" for g
    by (subst carve.simps) (simp add: getNeighbors_def nextInt_code rng_mix_def Let_def; (simp only: two)?)
  have w7: "(6062591912 :: u32) = 1767624616"
    by simp
  have c7: "carve 3 g [(0, 0), (1, 0), (2, 0), (2, 1), (2, 2), (1, 2), (0, 2), (0, 1)] (insert (0, 1) (insert (0, 2) (insert (1, 2) (insert (2, 2) (insert (2, 1) (insert (2, 0) (insert (1, 0) {(0, 0)}))))))) 4231026099 = carve 3 (removeWall g (0, 1) (1, 1)) [(0, 0), (1, 0), (2, 0), (2, 1), (2, 2), (1, 2), (0, 2), (0, 1), (1, 1)] (insert (1, 1) (insert (0, 1) (insert (0, 2) (insert (1, 2) (insert (2, 2) (insert (2, 1) (insert (2, 0) (insert (1, 0) {(0, 0)})))))))) 1767624616" for g
    by (subst carve.simps) (simp add: getNeighbors_def nextInt_code rng_mix_def Let_def w7; (simp only: two)?)
  have c8: "carve 3 g [(0, 0), (1, 0), (2, 0), (2, 1), (2, 2), (1, 2), (0, 2), (0, 1), (1, 1)] (insert (1, 1) (insert (0, 1) (insert (0, 2) (insert (1, 2) (insert (2, 2) (insert (2, 1) (insert (2, 0) (insert (1, 0) {(0, 0)})))))))) 1767624616 = carve 3 g [(0, 0), (1, 0), (2, 0), (2, 1), (2, 2), (1, 2), (0, 2), (0, 1)] (insert (1, 1) (insert (0, 1) (insert (0, 2) (insert (1, 2) (insert (2, 2) (insert (2, 1) (insert (2, 0) (insert (1, 0) {(0, 0)})))))))) 1767624616" for g
    by (subst carve.simps) (simp add: getNeighbors_def nextInt_code rng_mix_def Let_def; (simp only: two)?)
  have c9: "carve 3 g [(0, 0), (1, 0), (2, 0), (2, 1), (2, 2), (1, 2), (0, 2), (0, 1)] (insert (1, 1) (insert (0, 1) (insert (0, 2) (insert (1, 2) (insert (2, 2) (insert (2, 1) (insert (2, 0) (insert (1, 0) {(0, 0)})))))))) 1767624616 = carve 3 g [(0, 0), (1, 0), (2, 0), (2, 1), (2, 2), (1, 2), (0, 2)] (insert (1, 1) (insert (0, 1) (insert (0, 2) (insert (1, 2) (insert (2, 2) (insert (2, 1) (insert (2, 0) (insert (1, 0) {(0, 0)})))))))) 1767624616" for g
    by (subst carve.simps) (simp add: getNeighbors_def nextInt_code rng_mix_def Let_def; (simp only: two)?)
  have c10: "carve 3 g [(0, 0), (1, 0), (2, 0), (2, 1), (2, 2), (1, 2), (0, 2)] (insert (1, 1) (insert (0, 1) (insert (0, 2) (insert (1, 2) (insert (2, 2) (insert (2, 1) (insert (2, 0) (insert (1, 0) {(0, 0)})))))))) 1767624616 = carve 3 g [(0, 0), (1, 0), (2, 0), (2, 1), (2, 2), (1, 2)] (insert (1, 1) (insert (0, 1) (insert (0, 2) (insert (1, 2) (insert (2, 2) (insert (2, 1) (insert (2, 0) (insert (1, 0) {(0, 0)})))))))) 1767624616" for g
    by (subst carve.simps) (simp add: getNeighbors_def nextInt_code rng_mix_def Let_def; (simp only: two)?)
  have c11: "carve 3 g [(0, 0), (1, 0), (2, 0), (2, 1), (2, 2), (1, 2)] (insert (1, 1) (insert (0, 1) (insert (0, 2) (insert (1, 2) (insert (2, 2) (insert (2, 1) (insert (2, 0) (insert (1, 0) {(0, 0)})))))))) 1767624616 = carve 3 g [(0, 0), (1, 0), (2, 0), (2, 1), (2, 2)] (insert (1, 1) (insert (0, 1) (insert (0, 2) (insert (1, 2) (insert (2, 2) (insert (2, 1) (insert (2, 0) (insert (1, 0) {(0, 0)})))))))) 1767624616" for g
    by (subst carve.simps) (simp add: getNeighbors_def nextInt_code rng_mix_def Let_def; (simp only: two)?)
  have c12: "carve 3 g [(0, 0), (1, 0), (2, 0), (2, 1), (2, 2)] (insert (1, 1) (insert (0, 1) (insert (0, 2) (insert (1, 2) (insert (2, 2) (insert (2, 1) (insert (2, 0) (insert (1, 0) {(0, 0)})))))))) 1767624616 = carve 3 g [(0, 0), (1, 0), (2, 0), (2, 1)] (insert (1, 1) (insert (0, 1) (insert (0, 2) (insert (1, 2) (insert (2, 2) (insert (2, 1) (insert (2, 0) (insert (1, 0) {(0, 0)})))))))) 1767624616" for g
    by (subst carve.simps) (simp add: getNeighbors_def nextInt_code rng_mix_def Let_def; (simp only: two)?)
  have c13: "carve 3 g [(0, 0), (1, 0), (2, 0), (2, 1)] (insert (1, 1) (insert (0, 1) (insert (0, 2) (insert (1, 2) (insert (2, 2) (insert (2, 1) (insert (2, 0) (insert (1, 0) {(0, 0)})))))))) 1767624616 = carve 3 g [(0, 0), (1, 0), (2, 0)] (insert (1, 1) (insert (0, 1) (insert (0, 2) (insert (1, 2) (insert (2, 2) (insert (2, 1) (insert (2, 0) (insert (1, 0) {(0, 0)})))))))) 1767624616" for g
    by (subst carve.simps) (simp add: getNeighbors_def nextInt_code rng_mix_def Let_def; (simp only: two)?)
  have c14: "carve 3 g [(0, 0), (1, 0), (2, 0)] (insert (1, 1) (insert (0, 1) (insert (0, 2) (insert (1, 2) (insert (2, 2) (insert (2, 1) (insert (2, 0) (insert (1, 0) {(0, 0)})))))))) 1767624616 = carve 3 g [(0, 0), (1, 0)] (insert (1, 1) (insert (0, 1) (insert (0, 2) (insert (1, 2) (insert (2, 2) (insert (2, 1) (insert (2, 0) (insert (1, 0) {(0, 0)})))))))) 1767624616" for g
    by (subst carve.simps) (simp add: getNeighbors_def nextInt_code rng_mix_def Let_def; (simp only: two)?)
  have c15: "carve 3 g [(0, 0), (1, 0)] (insert (1, 1) (insert (0, 1) (insert (0, 2) (insert (1, 2) (insert (2, 2) (insert (2, 1) (insert (2, 0) (insert (1, 0) {(0, 0)})))))))) 1767624616 = carve 3 g [(0, 0)] (insert (1, 1) (insert (0, 1) (insert (0, 2) (insert (1, 2) (insert (2, 2) (insert (2, 1) (insert (2, 0) (insert (1, 0) {(0, 0)})))))))) 1767624616" for g
    by (subst carve.simps) (simp add: getNeighbors_def nextInt_code rng_mix_def Let_def; (simp only: two)?)
  have c16: "carve 3 g [(0, 0)] (insert (1, 1) (insert (0, 1) (insert (0, 2) (insert (1, 2) (insert (2, 2) (insert (2, 1) (insert (2, 0) (insert (1, 0) {(0, 0)})))))))) 1767624616 = carve 3 g [] (insert (1, 1) (insert (0, 1) (insert (0, 2) (insert (1, 2) (insert (2, 2) (insert (2, 1) (insert (2, 0) (insert (1, 0) {(0, 0)})))))))) 1767624616" for g
    by (subst carve.simps) (simp add: getNeighbors_def nextInt_code rng_mix_def Let_def; (simp only: two)?)
  have cF: "carve 3 g [] (insert (1, 1) (insert (0, 1) (insert (0, 2) (insert (1, 2) (insert (2, 2) (insert (2, 1) (insert (2, 0) (insert (1, 0) {(0, 0)})))))))) 1767624616 = Some (g, 1767624616)" for g
    by (subst carve.simps) simp
  show ?thesis
    by (simp only: c0 c1 c2 c3 c4 c5 c6 c7 c8 c9 c10 c11 c12 c13 c14 c15 c16 cF)
qed

lemma seedZero_grid: "removeWall (removeWall (removeWall (removeWall (removeWall (removeWall (removeWall (removeWall (initCells 3) (0, 0) (1, 0)) (1, 0) (2, 0)) (2, 0) (2, 1)) (2, 1) (2, 2)) (2, 2) (1, 2)) (1, 2) (0, 2)) (0, 2) (0, 1)) (0, 1) (1, 1) = seedZeroGrid"
  by (simp add: initCells_def removeWall_def updateWalls_def Let_def upt3 seedZeroGrid_def)

lemma seedZero_carveMaze: "carveMaze 0 3 = Some (seedZeroGrid, 1767624616)"
  by (simp only: carveMaze_def seedRNG_def seedZero_carve seedZero_grid)

lemma seedZero_placeHoles:
  "placeHoles 3 2 seedZeroGrid [] {(0, 0), (2, 2)} 1767624616 = Some (holes seedZeroMaze, 3535249232)"
proof -
  have two: "Suc (Suc 0) = 2"
    by simp
  have v0: "(9093887868 :: u32) = 503953276"
    by simp
  have h0: "placeHoles 3 2 seedZeroGrid [] ({(0, 0), (2, 2)}) 1767624616 = placeHoles 3 2 seedZeroGrid [\<lparr>hole_x = 1, hole_y = 1, offsetX = Some (- 0.3 + 1057668038 / 4294967296 * 0.6), offsetY = Some (- 0.3 + 420269829 / 4294967296 * 0.6)\<rparr>] (insert (1, 1) {(0, 0), (2, 2)}) 503953276"
    by (subst placeHoles.simps) (simp add: nextInt_code nextFloat_def rng_next_def rng_mix_def Let_def isAdjacentWithoutWall_def seedZeroGrid_def v0; (simp only: two)?)
  have v1: "(7830216528 :: u32) = 3535249232"
    by simp
  have h1: "placeHoles 3 2 seedZeroGrid [\<lparr>hole_x = 1, hole_y = 1, offsetX = Some (- 0.3 + 1057668038 / 4294967296 * 0.6), offsetY = Some (- 0.3 + 420269829 / 4294967296 * 0.6)\<rparr>] (insert (1, 1) {(0, 0), (2, 2)}) 503953276 = placeHoles 3 2 seedZeroGrid [\<lparr>hole_x = 1, hole_y = 1, offsetX = Some (- 0.3 + 1057668038 / 4294967296 * 0.6), offsetY = Some (- 0.3 + 420269829 / 4294967296 * 0.6)\<rparr>,
      \<lparr>hole_x = 2, hole_y = 1, offsetX = Some (- 0.3 + 3093645806 / 4294967296 * 0.6), offsetY = Some (- 0.3 + 2834277798 / 4294967296 * 0.6)\<rparr>] (insert (2, 1) (insert (1, 1) {(0, 0), (2, 2)})) 3535249232"
    by (subst placeHoles.simps) (simp add: nextInt_code nextFloat_def rng_next_def rng_mix_def Let_def isAdjacentWithoutWall_def seedZeroGrid_def v1; (simp only: two)?)
  have hF: "placeHoles 3 2 seedZeroGrid [\<lparr>hole_x = 1, hole_y = 1, offsetX = Some (- 0.3 + 1057668038 / 4294967296 * 0.6), offsetY = Some (- 0.3 + 420269829 / 4294967296 * 0.6)\<rparr>,
      \<lparr>hole_x = 2, hole_y = 1, offsetX = Some (- 0.3 + 3093645806 / 4294967296 * 0.6), offsetY = Some (- 0.3 + 2834277798 / 4294967296 * 0.6)\<rparr>] (insert (2, 1) (insert (1, 1) {(0, 0), (2, 2)})) 3535249232 = Some ([\<lparr>hole_x = 1, hole_y = 1, offsetX = Some (- 0.3 + 1057668038 / 4294967296 * 0.6), offsetY = Some (- 0.3 + 420269829 / 4294967296 * 0.6)\<rparr>,
      \<lparr>hole_x = 2, hole_y = 1, offsetX = Some (- 0.3 + 3093645806 / 4294967296 * 0.6), offsetY = Some (- 0.3 + 2834277798 / 4294967296 * 0.6)\<rparr>], 3535249232)"
    by (subst placeHoles.simps) simp
  show ?thesis
    unfolding h0 h1 hF by (simp add: seedZeroMaze_def)
qed

lemma seedZero_generateMaze: "generateMaze 0 3 2 = Some (Inr seedZeroMaze)"
  by (simp add: generateMaze_def seedZero_carveMaze seedZero_placeHoles) (simp add: seedZeroMaze_def)

subsection \<open>The claims about the generator\<close>

text \<open>
  C1. For every seed and every grid size \<open>n \<ge> 1\<close> the carving ends, and the grid \<open>g\<close> it
  leaves is a spanning tree of the \<open>n\<close> by \<open>n\<close> grid graph: the flood fill from \<open>(0,0)\<close>
  along open wall pairs visits exactly the \<open>n\<^sup>2\<close> cells of the grid, and exactly
  \<open>n\<^sup>2 - 1\<close> wall pairs are open (the two cells of every pair agree on it). With no
  holes \<open>generateMaze\<close> returns; and whatever the hole count, a maze that \<open>generateMaze\<close>
  returns has this grid.
\<close>

theorem generateMaze_spanning_tree:
  assumes "1 \<le> n"
  shows "\<exists>g rng. carveMaze seed n = Some (g, rng)
     \<and> gridShape n g
     \<and> {p. reachable n g p} = gridCells n
     \<and> card {p. reachable n g p} = n * n
     \<and> openPairs n g = n * n - 1
     \<and> wallsSymmetric n g
     \<and> (\<exists>m. generateMaze seed n 0 = Some (Inr m))
     \<and> (\<forall>holeCount m. generateMaze seed n holeCount = Some (Inr m)
           \<longrightarrow> cells m = g \<and> maze_size m = n)"
proof -
  from assms have n: "0 < n" by simp
  from carveMaze_total [OF n, of seed] obtain g rng where
    c: "carveMaze seed n = Some (g, rng)" and inv: "carveInv n g [] (gridCells n)"
    by blast
  note sp = spanning_from_inv [OF inv]
  have gen0: "\<exists>m. generateMaze seed n 0 = Some (Inr m)"
    using n c by (simp add: generateMaze_def placeHoles.simps)
  have same: "cells m = g \<and> maze_size m = n"
    if "generateMaze seed n holeCount = Some (Inr m)" for holeCount m
    using generateMaze_Inr [OF that] c by auto
  from inv have "gridShape n g" "wallsSymmetric n g" by (simp_all add: carveInv_def)
  with c sp gen0 same show ?thesis
    by (auto simp: card_gridCells)
qed

text \<open>The theorem at seed 0 and size 3, on the grid computed above.\<close>

theorem generateMaze_spanning_tree_witness:
  "(1::nat) \<le> 3
   \<and> carveMaze 0 3 = Some (seedZeroGrid, 1767624616)
   \<and> gridShape 3 seedZeroGrid
   \<and> {p. reachable 3 seedZeroGrid p} = gridCells 3
   \<and> card {p. reachable 3 seedZeroGrid p} = 9
   \<and> openPairs 3 seedZeroGrid = 8
   \<and> wallsSymmetric 3 seedZeroGrid
   \<and> generateMaze 0 3 2 = Some (Inr seedZeroMaze)
   \<and> cells seedZeroMaze = seedZeroGrid
   \<and> maze_size seedZeroMaze = 3"
proof -
  have "(1::nat) \<le> 3" by simp
  from generateMaze_spanning_tree [OF this, of 0] obtain g rng where
    c: "carveMaze 0 3 = Some (g, rng)" and s: "gridShape 3 g"
    and r: "{p. reachable 3 g p} = gridCells 3" and k: "card {p. reachable 3 g p} = 3 * 3"
    and p: "openPairs 3 g = 3 * 3 - 1" and w: "wallsSymmetric 3 g"
    and m: "\<forall>holeCount m. generateMaze 0 3 holeCount = Some (Inr m)
           \<longrightarrow> cells m = g \<and> maze_size m = 3"
    by blast
  from c have g: "g = seedZeroGrid" by (simp add: seedZero_carveMaze)
  from m seedZero_generateMaze have "cells seedZeroMaze = g \<and> maze_size seedZeroMaze = 3"
    by blast
  with s r k p w g seedZero_carveMaze seedZero_generateMaze show ?thesis
    by simp
qed

text \<open>
  C4. A maze that \<open>generateMaze\<close> returns has exactly \<open>holeCount\<close> holes, in pairwise
  distinct cells of the grid, none of them \<open>(0,0)\<close> or \<open>(size-1, size-1)\<close>; no hole is
  adjacent without wall to another (\<^verbatim>\<open>isAdjacentWithoutWall\<close>), and between two holes
  at Manhattan distance 1 the wall stands, on either side.
\<close>

theorem generateMaze_holes:
  assumes "generateMaze seed n holeCount = Some (Inr m)"
  shows "length (holes m) = holeCount
     \<and> distinct (map holePos (holes m))
     \<and> (\<forall>h \<in> set (holes m). holePos h \<in> gridCells n
           \<and> holePos h \<noteq> (0, 0) \<and> holePos h \<noteq> (n - 1, n - 1))
     \<and> (\<forall>h1 \<in> set (holes m). \<forall>h2 \<in> set (holes m).
           \<not> isAdjacentWithoutWall (cells m) (hole_x h1) (hole_y h1) (hole_x h2) (hole_y h2))
     \<and> (\<forall>h1 \<in> set (holes m). \<forall>h2 \<in> set (holes m).
           manhattan (holePos h1) (holePos h2) = 1
           \<longrightarrow> wallToward (cells m) (holePos h1) (holePos h2))"
proof -
  define g where "g = cells m"
  define ps where "ps = map holePos (holes m)"
  from generateMaze_placement [OF assms] have vp: "validPlacement n g ps"
    and len: "length (holes m) = holeCount" and inv: "carveInv n g [] (gridCells n)"
    by (simp_all add: g_def ps_def)
  from vp have d: "distinct ps" and sub: "set ps \<subseteq> gridCells n - corners n"
    and pa: "placedApart g ps"
    by (simp_all add: validPlacement_def)
  from inv have sy: "wallsSymmetric n g" by (simp add: carveInv_def)
  have closed: "wallToward g p q" if p: "p \<in> set ps" and q: "q \<in> set ps"
    and m: "manhattan p q = 1" for p q
  proof -
    from p q obtain i j where i: "i < length ps" "ps ! i = p" and j: "j < length ps" "ps ! j = q"
      by (auto simp: in_set_conv_nth)
    from m have "p \<noteq> q" by (auto simp: manhattan_def)
    with i j have "i \<noteq> j" by auto
    from p q sub have pg: "p \<in> gridCells n" and qg: "q \<in> gridCells n" by auto
    have mq: "manhattan q p = 1" using m by (simp add: manhattan_def abs_minus_commute)
    from \<open>i \<noteq> j\<close> have "i < j \<or> j < i" by linarith
    then show ?thesis
    proof
      assume "i < j"
      with pa j i have "\<not> isAdjacentWithoutWall g (fst q) (snd q) (fst p) (snd p)"
        by (auto simp: placedApart_def)
      then have "wallToward g q p" by (simp add: isAdjacent_wallToward [OF mq])
      then show ?thesis by (simp add: wallToward_sym [OF sy pg qg m])
    next
      assume "j < i"
      with pa j i have "\<not> isAdjacentWithoutWall g (fst p) (snd p) (fst q) (snd q)"
        by (auto simp: placedApart_def)
      then show ?thesis by (simp add: isAdjacent_wallToward [OF m])
    qed
  qed
  have apart: "\<not> isAdjacentWithoutWall g (fst p) (snd p) (fst q) (snd q)"
    if p: "p \<in> set ps" and q: "q \<in> set ps" for p q
  proof
    assume a: "isAdjacentWithoutWall g (fst p) (snd p) (fst q) (snd q)"
    then have m: "manhattan p q = 1" using isAdjacent_manhattan [of g "fst p" "snd p" "fst q" "snd q"]
      by simp
    from closed [OF p q m] a show False by (simp add: isAdjacent_wallToward [OF m])
  qed
  have 3: "\<forall>h \<in> set (holes m). holePos h \<in> gridCells n
           \<and> holePos h \<noteq> (0, 0) \<and> holePos h \<noteq> (n - 1, n - 1)"
    using sub by (auto simp: ps_def corners_def)
  have 4: "\<forall>h1 \<in> set (holes m). \<forall>h2 \<in> set (holes m).
           \<not> isAdjacentWithoutWall g (hole_x h1) (hole_y h1) (hole_x h2) (hole_y h2)"
    using apart by (force simp: ps_def holePos_def)
  have 5: "\<forall>h1 \<in> set (holes m). \<forall>h2 \<in> set (holes m).
           manhattan (holePos h1) (holePos h2) = 1 \<longrightarrow> wallToward g (holePos h1) (holePos h2)"
    using closed by (simp add: ps_def)
  from len d 3 4 5 show ?thesis
    unfolding g_def ps_def by blast
qed

text \<open>The theorem at the maze of seed 0, size 3 and two holes.\<close>

theorem generateMaze_holes_witness:
  "generateMaze 0 3 2 = Some (Inr seedZeroMaze)
   \<and> length (holes seedZeroMaze) = 2
   \<and> map holePos (holes seedZeroMaze) = [(1, 1), (2, 1)]
   \<and> distinct (map holePos (holes seedZeroMaze))
   \<and> manhattan (1, 1) (2, 1) = 1
   \<and> wallToward (cells seedZeroMaze) (1, 1) (2, 1)
   \<and> wallToward (cells seedZeroMaze) (2, 1) (1, 1)
   \<and> \<not> isAdjacentWithoutWall (cells seedZeroMaze) 1 1 2 1
   \<and> \<not> isAdjacentWithoutWall (cells seedZeroMaze) 2 1 1 1"
proof -
  have ps: "map holePos (holes seedZeroMaze) = [(1, 1), (2, 1)]"
    by (simp add: seedZeroMaze_def holePos_def)
  have hs: "\<exists>h1 h2. holes seedZeroMaze = [h1, h2] \<and> holePos h1 = (1, 1) \<and> holePos h2 = (2, 1)"
    by (simp add: seedZeroMaze_def holePos_def)
  then obtain h1 h2 where h: "holes seedZeroMaze = [h1, h2]" "holePos h1 = (1, 1)"
    "holePos h2 = (2, 1)"
    by blast
  then have xy: "hole_x h1 = 1" "hole_y h1 = 1" "hole_x h2 = 2" "hole_y h2 = 1"
    by (simp_all add: holePos_def)
  have m: "manhattan (1, 1) (2, 1) = 1"
    by (simp add: manhattan_def)
  note t = generateMaze_holes [OF seedZero_generateMaze]
  from t have "length (holes seedZeroMaze) = 2" "distinct (map holePos (holes seedZeroMaze))"
    by simp_all
  moreover from t h m have "wallToward (cells seedZeroMaze) (1, 1) (2, 1)"
    by (simp add: manhattan_def)
  moreover from t h m have "wallToward (cells seedZeroMaze) (2, 1) (1, 1)"
    by (simp add: manhattan_def)
  moreover from t h xy have "\<not> isAdjacentWithoutWall (cells seedZeroMaze) 1 1 2 1"
    "\<not> isAdjacentWithoutWall (cells seedZeroMaze) 2 1 1 1"
    by simp_all
  ultimately show ?thesis
    using seedZero_generateMaze ps m by simp
qed

text \<open>
  C8. The hole loop has no bound and no error exit. When no placement of \<open>holeCount\<close>
  holes satisfies the constraints of the loop, the loop does not return, from any RNG
  state and on any grid; in particular \<open>generateMaze\<close> does not return when \<open>holeCount\<close>
  exceeds the \<open>size\<^sup>2 - 2\<close> cells that are not reserved.
\<close>

theorem hole_loop_diverges:
  "(0 < n \<and> \<not> (\<exists>ps. validPlacement n g ps \<and> length ps = holeCount)
      \<longrightarrow> placeHoles n holeCount g [] {(0, 0), (n - 1, n - 1)} rng = None)
   \<and> (1 \<le> n \<and> n * n - 2 < holeCount \<longrightarrow> generateMaze seed n holeCount = None)"
proof (intro conjI impI)
  assume a: "0 < n \<and> \<not> (\<exists>ps. validPlacement n g ps \<and> length ps = holeCount)"
  show "placeHoles n holeCount g [] {(0, 0), (n - 1, n - 1)} rng = None"
  proof (rule ccontr)
    assume "placeHoles n holeCount g [] {(0, 0), (n - 1, n - 1)} rng \<noteq> None"
    then obtain res where r: "placeHoles n holeCount g [] {(0, 0), (n - 1, n - 1)} rng = Some res"
      by blast
    from a have n: "0 < n" by simp
    from placeHoles_result [OF r n holesInv_init]
    have "validPlacement n g (map holePos (fst res))" "length (map holePos (fst res)) = holeCount"
      by (simp_all add: holesInv_def)
    with a show False by blast
  qed
next
  assume a: "1 \<le> n \<and> n * n - 2 < holeCount"
  then have n: "0 < n" by simp
  show "generateMaze seed n holeCount = None"
  proof (rule ccontr)
    assume "generateMaze seed n holeCount \<noteq> None"
    then obtain r where r: "generateMaze seed n holeCount = Some r" by blast
    show False
    proof (cases r)
      case (Inl e)
      with r n show False
        by (auto simp: generateMaze_def split: option.splits prod.splits)
    next
      case (Inr m)
      with r have "generateMaze seed n holeCount = Some (Inr m)" by simp
      from generateMaze_placement [OF this]
      have "validPlacement n (cells m) (map holePos (holes m))" "length (holes m) = holeCount"
        by simp_all
      with validPlacement_length [OF _ n, of "cells m" "map holePos (holes m)"] a
      show False by simp
    qed
  qed
qed

text \<open>
  The theorem at size 3 with eight holes, one more than the seven cells that are not
  reserved.
\<close>

theorem hole_loop_diverges_witness:
  "0 < (3::nat)
   \<and> \<not> (\<exists>ps. validPlacement 3 seedZeroGrid ps \<and> length ps = 8)
   \<and> placeHoles 3 8 seedZeroGrid [] {(0, 0), (2, 2)} 1767624616 = None
   \<and> (1::nat) \<le> 3 \<and> (3::nat) * 3 - 2 < 8
   \<and> generateMaze 0 3 8 = None"
proof -
  have a: "\<not> (\<exists>ps. validPlacement 3 seedZeroGrid ps \<and> length ps = 8)"
  proof
    assume "\<exists>ps. validPlacement 3 seedZeroGrid ps \<and> length ps = 8"
    then obtain ps where "validPlacement 3 seedZeroGrid ps" "length ps = 8"
      by blast
    with validPlacement_length [of 3 seedZeroGrid ps] show False
      by simp
  qed
  from hole_loop_diverges [of 3 seedZeroGrid 8 1767624616 0] a
  have "placeHoles 3 8 seedZeroGrid [] {(0, 0), (3 - 1, 3 - 1)} 1767624616 = None"
    "generateMaze 0 3 8 = None"
    by simp_all
  with a show ?thesis
    by simp
qed

end
